theory Spec2Isabelle
  imports Main
begin

section \<open>JavaScript strings\<close>

text \<open>
  A JavaScript string is a sequence of 16-bit code units. A code unit is modelled as a
  natural number, a string as a list of them; \<open>str\<close> turns a literal into its code
  units. Nothing below relies on a code unit being smaller than 65536.
\<close>

type_synonym jsstring = "nat list"

definition str :: "string \<Rightarrow> jsstring" where
  "str cs = map of_char cs"

definition substring :: "jsstring \<Rightarrow> nat \<Rightarrow> nat \<Rightarrow> jsstring" where
  "substring s i j = take (j - i) (drop i s)"

definition isUpper :: "nat \<Rightarrow> bool" where
  "isUpper c = (65 \<le> c \<and> c \<le> 90)"

definition isLower :: "nat \<Rightarrow> bool" where
  "isLower c = (97 \<le> c \<and> c \<le> 122)"

definition isDigit :: "nat \<Rightarrow> bool" where
  "isDigit c = (48 \<le> c \<and> c \<le> 57)"

text \<open>The regular expression class \<open>\w\<close>: \<open>[A-Za-z0-9_]\<close>.\<close>

definition isWordChar :: "nat \<Rightarrow> bool" where
  "isWordChar c = (isUpper c \<or> isLower c \<or> isDigit c \<or> c = 95)"

text \<open>
  White space and line terminators of ECMAScript: what \<open>String.prototype.trim\<close>
  removes and what the class \<open>\s\<close> matches.
\<close>

definition isWhiteSpace :: "nat \<Rightarrow> bool" where
  "isWhiteSpace c =
     ((9 \<le> c \<and> c \<le> 13) \<or> c = 32 \<or> c = 160 \<or> c = 5760 \<or> (8192 \<le> c \<and> c \<le> 8202)
      \<or> c = 8232 \<or> c = 8233 \<or> c = 8239 \<or> c = 8287 \<or> c = 12288 \<or> c = 65279)"

definition trim :: "jsstring \<Rightarrow> jsstring" where
  "trim s = dropWhile isWhiteSpace (rev (dropWhile isWhiteSpace (rev s)))"

text \<open>
  \<open>String.prototype.toLowerCase\<close> on the code units below 128. The source applies it
  to matches of \<open>strictRe\<close> only, and every code unit of such a match is below 128
  (lemma \<open>strictRe_match_ascii\<close>).
\<close>

definition lowerUnit :: "nat \<Rightarrow> nat" where
  "lowerUnit c = (if isUpper c then c + 32 else c)"

definition toLowerCase :: "jsstring \<Rightarrow> jsstring" where
  "toLowerCase s = map lowerUnit s"

text \<open>\<open>s.split(sep)[0]\<close> and \<open>s.split(sep).pop()\<close> for a separator of one code unit.\<close>

definition splitFirst :: "nat \<Rightarrow> jsstring \<Rightarrow> jsstring" where
  "splitFirst sep s = takeWhile (\<lambda>c. c \<noteq> sep) s"

definition splitPop :: "nat \<Rightarrow> jsstring \<Rightarrow> jsstring" where
  "splitPop sep s = rev (takeWhile (\<lambda>c. c \<noteq> sep) (rev s))"

definition startsWith :: "jsstring \<Rightarrow> jsstring \<Rightarrow> bool" where
  "startsWith s p = (take (length p) s = p)"

fun join :: "jsstring \<Rightarrow> jsstring list \<Rightarrow> jsstring" where
  "join sep [] = []"
| "join sep [x] = x"
| "join sep (x # y # ys) = x @ sep @ join sep (y # ys)"

text \<open>
  A \<open>Set\<close> of strings keeps its members in insertion order, and \<open>add\<close> of a member
  already present changes nothing.
\<close>

definition setAdd :: "jsstring \<Rightarrow> jsstring list \<Rightarrow> jsstring list" where
  "setAdd x xs = (if x \<in> set xs then xs else xs @ [x])"

section \<open>Exceptions\<close>

datatype exn = Error string | TypeError | URIError | RangeError

section \<open>Regular expressions\<close>

text \<open>
  The patterns of the source are sequences of four kinds of items: the assertion
  \<open>\b\<close>, one literal code unit, a greedy repetition of a character class with a least
  count (\<open>+\<close> is \<open>Rep 1\<close>, \<open>*\<close> is \<open>Rep 0\<close>, \<open>{2,}\<close> is \<open>Rep 2\<close>), and the
  assertion \<open>$\<close>.

  \<open>ends a s i\<close> lists the positions at which item \<open>a\<close> can end when it starts at
  position \<open>i\<close> of \<open>s\<close>, in the order in which the backtracking matcher tries them: a
  greedy repetition tries the longest run first. \<open>run re s i\<close> lists, in that order,
  every position at which the whole sequence can end; the matcher returns the first.
\<close>

datatype atom = WordBoundary | Lit nat | Rep nat "nat \<Rightarrow> bool" | EndOfInput

definition wordAt :: "jsstring \<Rightarrow> nat \<Rightarrow> bool" where
  "wordAt s i = (i < length s \<and> isWordChar (s ! i))"

fun ends :: "atom \<Rightarrow> jsstring \<Rightarrow> nat \<Rightarrow> nat list" where
  "ends WordBoundary s i =
     (if (0 < i \<and> wordAt s (i - 1)) \<noteq> wordAt s i then [i] else [])"
| "ends (Lit c) s i = (if i < length s \<and> s ! i = c then [Suc i] else [])"
| "ends (Rep m p) s i =
     (let n = length (takeWhile p (drop i s)) in map (\<lambda>k. i + k) (rev [m..<Suc n]))"
| "ends EndOfInput s i = (if i = length s then [i] else [])"

fun run :: "atom list \<Rightarrow> jsstring \<Rightarrow> nat \<Rightarrow> nat list" where
  "run [] s i = [i]"
| "run (a # as) s i = concat (map (run as s) (ends a s i))"

definition matchAt :: "atom list \<Rightarrow> jsstring \<Rightarrow> nat \<Rightarrow> nat option" where
  "matchAt re s i = (case run re s i of [] \<Rightarrow> None | j # _ \<Rightarrow> Some j)"

text \<open>
  The matcher tries the start positions from \<open>from\<close> up to the length of the string and
  stops at the first one that matches: the result is the start and the end of the match.
\<close>

definition search :: "atom list \<Rightarrow> jsstring \<Rightarrow> nat \<Rightarrow> (nat \<times> nat) option" where
  "search re s from =
     (case List.find (\<lambda>i. matchAt re s i \<noteq> None) [from..<Suc (length s)] of
        None \<Rightarrow> None
      | Some i \<Rightarrow> (case matchAt re s i of None \<Rightarrow> None | Some j \<Rightarrow> Some (i, j)))"

text \<open>\<open>s.match(re)\<close> for a pattern without the global flag: the text of the first match.\<close>

definition match :: "atom list \<Rightarrow> jsstring \<Rightarrow> jsstring option" where
  "match re s = (case search re s 0 of None \<Rightarrow> None | Some (i, j) \<Rightarrow> Some (substring s i j))"

text \<open>
  \<open>re.exec(s)\<close> for a pattern with the global flag, with the pattern's \<open>lastIndex\<close>
  passed in and returned: a failed search resets it to 0.
\<close>

definition exec :: "atom list \<Rightarrow> jsstring \<Rightarrow> nat \<Rightarrow> jsstring option \<times> nat" where
  "exec re s lastIndex =
     (if length s < lastIndex then (None, 0)
      else case search re s lastIndex of
             None \<Rightarrow> (None, 0)
           | Some (i, j) \<Rightarrow> (Some (substring s i j), j))"

text \<open>
  \<open>s.replace(re, r)\<close> for a pattern without the global flag and a replacement text
  \<open>r\<close> without \<open>$\<close>.
\<close>

definition replace :: "atom list \<Rightarrow> jsstring \<Rightarrow> jsstring \<Rightarrow> jsstring" where
  "replace re s r = (case search re s 0 of None \<Rightarrow> s | Some (i, j) \<Rightarrow> take i s @ r @ drop j s)"

definition lits :: "string \<Rightarrow> atom list" where
  "lits cs = map (\<lambda>c. Lit (of_char c)) cs"

text \<open>The classes \<open>[A-Za-z0-9._%+-]\<close>, \<open>[A-Za-z0-9.-]\<close> and \<open>[A-Za-z]\<close>.\<close>

definition localChar :: "nat \<Rightarrow> bool" where
  "localChar c = (isUpper c \<or> isLower c \<or> isDigit c \<or> c \<in> set (str ''._%+-''))"

definition domainChar :: "nat \<Rightarrow> bool" where
  "domainChar c = (isUpper c \<or> isLower c \<or> isDigit c \<or> c \<in> set (str ''.-''))"

definition letter :: "nat \<Rightarrow> bool" where
  "letter c = (isUpper c \<or> isLower c)"

text \<open>
  \<^verbatim>\<open>/\b[A-Za-z0-9._%+-]+@[A-Za-z0-9.-]+\.[A-Za-z]{2,}\b/g\<close> and the same pattern
  without the flag.
\<close>

definition looseRe :: "atom list" where
  "looseRe = [WordBoundary, Rep 1 localChar, Lit 64, Rep 1 domainChar, Lit 46, Rep 2 letter,
              WordBoundary]"

definition strictRe :: "atom list" where
  "strictRe = [WordBoundary, Rep 1 localChar, Lit 64, Rep 1 domainChar, Lit 46, Rep 2 letter,
               WordBoundary]"


subsection \<open>Where a match can end\<close>

lemma ends_bounds:
  assumes "j \<in> set (ends a s i)"
  shows "i \<le> j \<and> (i \<le> length s \<longrightarrow> j \<le> length s)"
proof (cases a)
  case (Rep m p)
  have "length (takeWhile p (drop i s)) \<le> length s - i"
    using length_takeWhile_le [of p "drop i s"] by simp
  then show ?thesis
    using Rep assms by (auto simp: Let_def)
qed (use assms in \<open>auto split: if_splits\<close>)

lemma run_bounds:
  "j \<in> set (run re s i) \<Longrightarrow> i \<le> j \<and> (i \<le> length s \<longrightarrow> j \<le> length s)"
proof (induction re arbitrary: i)
  case Nil
  then show ?case by simp
next
  case (Cons a re)
  from Cons.prems obtain k where k: "k \<in> set (ends a s i)" and j: "j \<in> set (run re s k)"
    by auto
  from ends_bounds [OF k] Cons.IH [OF j] show ?case by auto
qed

lemma run_Lit_advances:
  "Lit c \<in> set re \<Longrightarrow> j \<in> set (run re s i) \<Longrightarrow> i < j"
proof (induction re arbitrary: i)
  case Nil
  then show ?case by simp
next
  case (Cons a re)
  from Cons.prems(2) obtain k where k: "k \<in> set (ends a s i)" and j: "j \<in> set (run re s k)"
    by auto
  show ?case
  proof (cases "a = Lit c")
    case True
    with k have "k = Suc i" by (auto split: if_splits)
    with run_bounds [OF j] show ?thesis by simp
  next
    case False
    with Cons.prems(1) have "Lit c \<in> set re" by simp
    from Cons.IH [OF this j] ends_bounds [OF k] show ?thesis by simp
  qed
qed

lemma matchAt_Some_run: "matchAt re s i = Some j \<Longrightarrow> j \<in> set (run re s i)"
  by (auto simp: matchAt_def split: list.splits)

lemma find_Some_mem: "List.find P xs = Some x \<Longrightarrow> x \<in> set xs \<and> P x"
  by (induction xs) (auto split: if_splits)

lemma search_Some:
  assumes "search re s from = Some (i, j)"
  shows "from \<le> i \<and> i \<le> length s \<and> matchAt re s i = Some j"
proof -
  from assms have f: "List.find (\<lambda>i. matchAt re s i \<noteq> None) [from..<Suc (length s)] = Some i"
    and m: "matchAt re s i = Some j"
    by (auto simp: search_def simp del: upt_Suc split: option.splits)
  from find_Some_mem [OF f] have "from \<le> i \<and> i \<le> length s"
    by (simp del: upt_Suc)
  with m show ?thesis by simp
qed

lemma exec_looseRe_advances:
  assumes "exec looseRe s lastIndex = (Some m, l)"
  shows "lastIndex < l \<and> l \<le> length s"
proof -
  from assms obtain i where s: "search looseRe s lastIndex = Some (i, l)"
    by (auto simp: exec_def split: if_splits option.splits)
  from search_Some [OF s] have i: "lastIndex \<le> i" "i \<le> length s"
    and r: "l \<in> set (run looseRe s i)"
    by (auto dest: matchAt_Some_run)
  have "Lit 64 \<in> set looseRe" by (simp add: looseRe_def)
  from run_Lit_advances [OF this r] run_bounds [OF r] i show ?thesis by simp
qed

subsection \<open>The code units of a match\<close>

fun atomUnits :: "(nat \<Rightarrow> bool) \<Rightarrow> atom \<Rightarrow> bool" where
  "atomUnits P (Lit c) = P c"
| "atomUnits P (Rep m p) = (\<forall>c. p c \<longrightarrow> P c)"
| "atomUnits P WordBoundary = True"
| "atomUnits P EndOfInput = True"

lemma takeWhile_run:
  assumes "k < length (takeWhile p (drop i s))"
  shows "p (s ! (i + k))"
proof -
  have "takeWhile p (drop i s) ! k = drop i s ! k"
    using assms by (rule takeWhile_nth)
  moreover have "takeWhile p (drop i s) ! k \<in> set (takeWhile p (drop i s))"
    using assms by simp
  moreover have "i + k < length s"
    using assms length_takeWhile_le [of p "drop i s"] by simp
  ultimately show ?thesis
    by (auto dest: set_takeWhileD)
qed

lemma ends_units:
  assumes "atomUnits P a" and "j \<in> set (ends a s i)" and "i \<le> k" and "k < j"
  shows "P (s ! k)"
proof (cases a)
  case (Rep m p)
  with assms(2) have "j \<le> i + length (takeWhile p (drop i s))"
    by (auto simp: Let_def)
  with assms(3,4) have "k - i < length (takeWhile p (drop i s))" by simp
  from takeWhile_run [OF this] assms(1,3) Rep show ?thesis by simp
next
  case (Lit c)
  with assms have "k = i" "s ! i = c" by (auto split: if_splits)
  with assms(1) Lit show ?thesis by simp
qed (use assms in \<open>auto split: if_splits\<close>)

lemma run_units:
  assumes "\<forall>a\<in>set re. atomUnits P a" and "j \<in> set (run re s i)" and "i \<le> k" and "k < j"
  shows "P (s ! k)"
  using assms
proof (induction re arbitrary: i)
  case Nil
  then show ?case by simp
next
  case (Cons a re)
  from Cons.prems(2) obtain m where m: "m \<in> set (ends a s i)" and j: "j \<in> set (run re s m)"
    by auto
  show ?case
  proof (cases "k < m")
    case True
    from Cons.prems(1) have "atomUnits P a" by simp
    from ends_units [OF this m Cons.prems(3) True] show ?thesis .
  next
    case False
    then have "m \<le> k" by simp
    from Cons.prems(1) have "\<forall>a\<in>set re. atomUnits P a" by simp
    from Cons.IH [OF this j \<open>m \<le> k\<close> Cons.prems(4)] show ?thesis .
  qed
qed

lemma match_units:
  assumes "\<forall>a\<in>set re. atomUnits P a" and "match re s = Some m"
  shows "\<forall>c\<in>set m. P c"
proof -
  from assms(2) obtain i j where s: "search re s 0 = Some (i, j)" and m: "m = substring s i j"
    by (auto simp: match_def split: option.splits)
  from search_Some [OF s] have r: "j \<in> set (run re s i)" by (auto dest: matchAt_Some_run)
  from search_Some [OF s] run_bounds [OF r] have b: "i \<le> j" "j \<le> length s" by auto
  show ?thesis
  proof
    fix c assume "c \<in> set m"
    then obtain n where n: "n < length m" "c = m ! n" by (auto simp: in_set_conv_nth)
    with m b have "n < j - i" and "c = s ! (i + n)" by (auto simp: substring_def)
    with run_units [OF assms(1) r, of "i + n"] show "P c" by simp
  qed
qed

lemma strictRe_match_ascii:
  assumes "match strictRe s = Some m"
  shows "\<forall>c\<in>set m. c < 128"
proof -
  have "\<forall>a\<in>set strictRe. atomUnits (\<lambda>c. c < 128) a"
    by (auto simp: strictRe_def localChar_def domainChar_def letter_def isUpper_def isLower_def
        isDigit_def str_def)
  from match_units [OF this assms] show ?thesis .
qed

subsection \<open>The first match\<close>


lemma find_upt_first:
  "List.find P [0..<n] = Some i \<longleftrightarrow> i < n \<and> P i \<and> (\<forall>k<i. \<not> P k)"
  by (auto simp: find_Some_iff)

lemma find_upt_None: "List.find P [0..<n] = None \<longleftrightarrow> (\<forall>k<n. \<not> P k)"
  by (auto simp: find_None_iff)

lemma search_leftmost:
  assumes "i \<le> length s" and "matchAt re s i = Some j" and "\<forall>k<i. matchAt re s k = None"
  shows "search re s 0 = Some (i, j)"
proof -
  have "List.find (\<lambda>i. matchAt re s i \<noteq> None) [0..<Suc (length s)] = Some i"
    unfolding find_upt_first using assms by auto
  with assms(2) show ?thesis by (simp add: search_def del: upt_Suc)
qed

lemma search_None:
  assumes "\<forall>k\<le>length s. matchAt re s k = None"
  shows "search re s 0 = None"
proof -
  have "List.find (\<lambda>i. matchAt re s i \<noteq> None) [0..<Suc (length s)] = None"
    unfolding find_upt_None using assms by auto
  then show ?thesis by (simp add: search_def del: upt_Suc)
qed


subsection \<open>Literals and repetitions\<close>

lemma take_drop_Cons:
  "take (Suc n) (drop i s) = c # p \<longleftrightarrow> i < length s \<and> s ! i = c \<and> take n (drop (Suc i) s) = p"
proof (cases "i < length s")
  case True
  then have "drop i s = s ! i # drop (Suc i) s" by (simp add: Cons_nth_drop_Suc)
  then show ?thesis using True by auto
next
  case False
  then show ?thesis by simp
qed

lemma run_literal:
  "run (map Lit p @ re) s i =
     (if take (length p) (drop i s) = p then run re s (i + length p) else [])"
proof (induction p arbitrary: i)
  case Nil
  then show ?case by simp
next
  case (Cons c p)
  show ?case
    using Cons.IH [of "Suc i"] by (auto simp: take_drop_Cons)
qed

lemma lits_str: "lits cs = map Lit (str cs)"
  by (simp add: lits_def str_def)

lemma run_Rep:
  "run (Rep m p # re) s i =
     concat (map (\<lambda>k. run re s (i + k)) (rev [m..<Suc (length (takeWhile p (drop i s)))]))"
  by (simp add: Let_def comp_def)

lemma run_Lit:
  "run (Lit c # re) s i = (if i < length s \<and> s ! i = c then run re s (Suc i) else [])"
  by auto

text \<open>The longest run is tried first.\<close>

lemma run_Rep_first:
  assumes "m \<le> length (takeWhile p (drop i s))"
    and "run re s (i + length (takeWhile p (drop i s))) = j # js"
  shows "\<exists>js'. run (Rep m p # re) s i = j # js'"
proof -
  let ?n = "length (takeWhile p (drop i s))"
  from assms(1) have "rev [m..<Suc ?n] = ?n # rev [m..<?n]" by simp
  with assms(2) show ?thesis by (simp add: run_Rep del: upt_Suc)
qed

text \<open>
  When the item after a repetition is a literal outside the class, the repetition can
  only end where its longest run ends.
\<close>

lemma run_Rep_Lit:
  assumes "j \<in> set (run (Rep m p # Lit c # re) s i)" and "\<not> p c"
  shows "m \<le> length (takeWhile p (drop i s)) \<and>
         i + length (takeWhile p (drop i s)) < length s \<and>
         s ! (i + length (takeWhile p (drop i s))) = c \<and>
         j \<in> set (run re s (Suc (i + length (takeWhile p (drop i s)))))"
proof -
  let ?n = "length (takeWhile p (drop i s))"
  from assms(1) obtain k where k: "m \<le> k" "k \<le> ?n" and j: "j \<in> set (run (Lit c # re) s (i + k))"
    by (auto simp: run_Rep simp del: upt_Suc run.simps)
  from j have c: "i + k < length s" "s ! (i + k) = c" and r: "j \<in> set (run re s (Suc (i + k)))"
    by (auto split: if_splits)
  have "k = ?n"
  proof (rule ccontr)
    assume "k \<noteq> ?n"
    with k have "k < ?n" by simp
    from takeWhile_run [OF this] c assms(2) show False by simp
  qed
  with k c r show ?thesis by simp
qed

lemma takeWhile_prefix:
  assumes "\<forall>x\<in>set u. p x" and "v = [] \<or> \<not> p (hd v)"
  shows "takeWhile p (u @ v) = u"
  using assms by (cases v) (auto simp: takeWhile_append2)


lemma matchAt_None: "matchAt re s i = None \<longleftrightarrow> run re s i = []"
  by (simp add: matchAt_def split: list.splits)

lemma matchAt_first: "run re s i = j # js \<Longrightarrow> matchAt re s i = Some j"
  by (simp add: matchAt_def)

lemma run_literal_end:
  assumes "p \<noteq> []"
  shows "run (map Lit p @ [EndOfInput]) s i = (if drop i s = p then [length s] else [])"
proof (cases "drop i s = p")
  case True
  with assms have "i < length s" by auto
  moreover from True have "length s - i = length p" by (metis length_drop)
  ultimately have "i + length p = length s" by linarith
  with True show ?thesis by (simp add: run_literal)
next
  case False
  have "\<not> (take (length p) (drop i s) = p \<and> i + length p = length s)"
  proof
    assume a: "take (length p) (drop i s) = p \<and> i + length p = length s"
    then have "length s - i = length p" by linarith
    then have "length (drop i s) = length p" by simp
    with a have "drop i s = p" by (metis order_refl take_all)
    with False show False by simp
  qed
  with False show ?thesis by (simp add: run_literal)
qed

section \<open>decodeURIComponent\<close>

definition hexVal :: "nat \<Rightarrow> nat option" where
  "hexVal c =
     (if isDigit c then Some (c - 48)
      else if 65 \<le> c \<and> c \<le> 70 then Some (c - 55)
      else if 97 \<le> c \<and> c \<le> 102 then Some (c - 87)
      else None)"

text \<open>An escape \<open>%XX\<close> at the head of the string: its octet and the rest of the string.\<close>

fun percentOctet :: "jsstring \<Rightarrow> (nat \<times> jsstring) option" where
  "percentOctet (p # h1 # h2 # rest) =
     (if p = 37 then
        (case (hexVal h1, hexVal h2) of
           (Some a, Some b) \<Rightarrow> Some (16 * a + b, rest)
         | _ \<Rightarrow> None)
      else None)"
| "percentOctet _ = None"

text \<open>The \<open>n\<close> continuation octets (\<open>10xxxxxx\<close>) of a multi-octet sequence.\<close>

fun continuation :: "nat \<Rightarrow> jsstring \<Rightarrow> (nat list \<times> jsstring) option" where
  "continuation 0 s = Some ([], s)"
| "continuation (Suc n) s =
     (case percentOctet s of
        None \<Rightarrow> None
      | Some (b, rest) \<Rightarrow>
          if 128 \<le> b \<and> b < 192 then
            (case continuation n rest of
               None \<Rightarrow> None
             | Some (bs, rest') \<Rightarrow> Some (b # bs, rest'))
          else None)"

text \<open>
  The code point of a sequence of \<open>n\<close> octets with first octet \<open>b\<close>, when the sequence
  is valid UTF-8: not overlong, not a surrogate, at most \<open>0x10FFFF\<close>.
\<close>

definition codePoint :: "nat \<Rightarrow> nat list \<Rightarrow> nat option" where
  "codePoint b bs =
     (case bs of
        [b1] \<Rightarrow>
          (let v = (b - 192) * 64 + (b1 - 128) in if 128 \<le> v then Some v else None)
      | [b1, b2] \<Rightarrow>
          (let v = (b - 224) * 4096 + (b1 - 128) * 64 + (b2 - 128)
           in if 2048 \<le> v \<and> \<not> (55296 \<le> v \<and> v \<le> 57343) then Some v else None)
      | [b1, b2, b3] \<Rightarrow>
          (let v = (b - 240) * 262144 + (b1 - 128) * 4096 + (b2 - 128) * 64 + (b3 - 128)
           in if 65536 \<le> v \<and> v \<le> 1114111 then Some v else None)
      | _ \<Rightarrow> None)"

definition codeUnits :: "nat \<Rightarrow> jsstring" where
  "codeUnits v =
     (if v < 65536 then [v]
      else [55296 + (v - 65536) div 1024, 56320 + (v - 65536) mod 1024])"

text \<open>The number of leading 1 bits of an octet of at least 128.\<close>

definition leadingOnes :: "nat \<Rightarrow> nat" where
  "leadingOnes b =
     (if b < 192 then 1 else if b < 224 then 2 else if b < 240 then 3 else if b < 248 then 4
      else 5)"

lemma percentOctet_shorter: "percentOctet s = Some (b, rest) \<Longrightarrow> length rest < length s"
  by (induction s rule: percentOctet.induct) (auto split: if_splits option.splits)

lemma continuation_shorter: "continuation n s = Some (bs, rest) \<Longrightarrow> length rest \<le> length s"
proof (induction n arbitrary: s bs rest)
  case 0
  then show ?case by simp
next
  case (Suc n)
  then show ?case
    by (fastforce split: option.splits if_splits dest: percentOctet_shorter)
qed

text \<open>
  \<open>decodeURIComponent\<close>: a code unit other than \<open>%\<close> is copied; an escape below 128
  is its code unit; an escape of 128 or more starts a UTF-8 sequence of two to four
  escaped octets, which is replaced by the code units of its code point. Anything else
  throws a \<open>URIError\<close>.
\<close>

function decodeFrom :: "jsstring \<Rightarrow> jsstring \<Rightarrow> exn + jsstring" where
  "decodeFrom [] R = Inr R"
| "decodeFrom (c # cs) R =
     (if c \<noteq> 37 then decodeFrom cs (R @ [c])
      else
        (case percentOctet (c # cs) of
           None \<Rightarrow> Inl URIError
         | Some (b, rest) \<Rightarrow>
             if b < 128 then decodeFrom rest (R @ [b])
             else if leadingOnes b = 1 \<or> 4 < leadingOnes b then Inl URIError
             else
               (case continuation (leadingOnes b - 1) rest of
                  None \<Rightarrow> Inl URIError
                | Some (bs, rest') \<Rightarrow>
                    (case codePoint b bs of
                       None \<Rightarrow> Inl URIError
                     | Some v \<Rightarrow> decodeFrom rest' (R @ codeUnits v)))))"
  by pat_completeness auto
termination
proof (relation "measure (\<lambda>(s, R). length s)", goal_cases)
  case 1
  then show ?case by simp
next
  case (2 c cs R)
  then show ?case by simp
next
  case (3 c cs R x2 b rest)
  then show ?case using percentOctet_shorter [of "c # cs" b rest] by simp
next
  case (4 c cs R x2 b rest x2a bs rest' v)
  then show ?case
    using percentOctet_shorter [of "c # cs" b rest]
      continuation_shorter [of "leadingOnes b - 1" rest bs rest'] by simp
qed

definition decodeURIComponent :: "jsstring \<Rightarrow> exn + jsstring" where
  "decodeURIComponent s = decodeFrom s []"

section \<open>The document tree\<close>

text \<open>
  \<open>cheerio.load\<close> parses markup into a tree of nodes: elements with a tag name, their
  attributes (in the order in which \<open>Object.values\<close> lists them) and their children,
  text nodes, comments and directives. The parser is a library: it is a parameter
  \<open>load\<close> of \<open>basicScrape\<close>, a function from markup to the list of the top-level
  nodes. The operations of the library that the source calls are modelled on that tree.
\<close>

datatype node =
    Element jsstring "(jsstring \<times> jsstring) list" "node list"
  | Text jsstring
  | Comment jsstring
  | Directive jsstring

fun tagName :: "node \<Rightarrow> jsstring option" where
  "tagName (Element t as cs) = Some t"
| "tagName _ = None"

fun attribs :: "node \<Rightarrow> (jsstring \<times> jsstring) list" where
  "attribs (Element t as cs) = as"
| "attribs _ = []"

text \<open>The selector \<open>script, style\<close>.\<close>

definition scriptOrStyle :: "node \<Rightarrow> bool" where
  "scriptOrStyle n = (tagName n = Some (str ''script'') \<or> tagName n = Some (str ''style''))"

text \<open>\<open>$('script, style').remove()\<close>: every such element leaves the tree, at any depth.\<close>

fun removeIn :: "node \<Rightarrow> node" where
  "removeIn (Element t as cs) =
     Element t as (map removeIn (filter (\<lambda>c. \<not> scriptOrStyle c) cs))"
| "removeIn (Text d) = Text d"
| "removeIn (Comment d) = Comment d"
| "removeIn (Directive d) = Directive d"

definition removeScriptStyle :: "node list \<Rightarrow> node list" where
  "removeScriptStyle doc = map removeIn (filter (\<lambda>c. \<not> scriptOrStyle c) doc)"

text \<open>The elements of a subtree in document order, and the selector \<open>*\<close>.\<close>

fun elementsOf :: "node \<Rightarrow> node list" where
  "elementsOf (Element t as cs) = Element t as cs # concat (map elementsOf cs)"
| "elementsOf _ = []"

definition selectAll :: "node list \<Rightarrow> node list" where
  "selectAll doc = concat (map elementsOf doc)"

text \<open>\<open>$(el).attr(name)\<close>: the value of the attribute, or \<open>undefined\<close>.\<close>

definition attr :: "node \<Rightarrow> jsstring \<Rightarrow> jsstring option" where
  "attr el name = map_of (attribs el) name"

text \<open>The selectors \<^verbatim>\<open>a[href^="mailto:"]\<close> and \<open>body\<close>.\<close>

definition mailtoLink :: "node \<Rightarrow> bool" where
  "mailtoLink el =
     (tagName el = Some (str ''a'') \<and>
      (case attr el (str ''href'') of
         None \<Rightarrow> False
       | Some v \<Rightarrow> startsWith v (str ''mailto:'')))"

definition selectMailto :: "node list \<Rightarrow> node list" where
  "selectMailto doc = filter mailtoLink (selectAll doc)"

definition selectBody :: "node list \<Rightarrow> node list" where
  "selectBody doc = filter (\<lambda>el. tagName el = Some (str ''body'')) (selectAll doc)"

text \<open>
  \<open>.text()\<close>: the text nodes under the selected elements, concatenated. The parser
  and the selectors walk the tree with loops, but \<open>.text()\<close> calls itself for the
  children of every element, and a tree nested too deeply exhausts the call stack: the
  runtime throws a \<open>RangeError\<close>. How many nested elements the walk can descend
  depends on the runtime; it is the parameter \<open>stack\<close>. The texts of the children
  are joined from left to right, and the first exception ends the walk.
\<close>

fun joinAll :: "(exn + jsstring) list \<Rightarrow> exn + jsstring" where
  "joinAll [] = Inr []"
| "joinAll (Inl e # rs) = Inl e"
| "joinAll (Inr s # rs) = (case joinAll rs of Inl e \<Rightarrow> Inl e | Inr t \<Rightarrow> Inr (s @ t))"

fun textContent :: "nat \<Rightarrow> node \<Rightarrow> exn + jsstring" where
  "textContent stack (Element t as cs) =
     (if stack = 0 then Inl RangeError else joinAll (map (textContent (stack - 1)) cs))"
| "textContent stack (Text d) = Inr d"
| "textContent stack (Comment d) = Inr []"
| "textContent stack (Directive d) = Inr []"

definition textOf :: "nat \<Rightarrow> node list \<Rightarrow> exn + jsstring" where
  "textOf stack els = joinAll (map (textContent stack) els)"

section \<open>basicScrape\<close>

text \<open>
  The address of a \<open>mailto:\<close> link:
  \<^verbatim>\<open>href.replace(/^mailto:/, '').split('?')[0].trim()\<close>.
\<close>

definition mailtoAddress :: "jsstring \<Rightarrow> jsstring" where
  "mailtoAddress href =
     trim (splitFirst 63 (if startsWith href (str ''mailto:'') then drop 7 href else href))"

text \<open>
  The callback of the first \<open>each\<close>. \<open>attr\<close> returns \<open>undefined\<close> for an element
  without the attribute, and \<open>undefined.replace\<close> throws a \<open>TypeError\<close>.
\<close>

fun addMailto :: "node list \<Rightarrow> jsstring list \<Rightarrow> exn + jsstring list" where
  "addMailto [] rawSet = Inr rawSet"
| "addMailto (el # els) rawSet =
     (case attr el (str ''href'') of
        None \<Rightarrow> Inl TypeError
      | Some href \<Rightarrow> addMailto els (setAdd (mailtoAddress href) rawSet))"

text \<open>
  \<^verbatim>\<open>while ((m = looseRe.exec(s)) !== null) rawSet.add(m[0])\<close>, with the
  \<open>lastIndex\<close> of \<open>looseRe\<close> passed in and returned.
\<close>

function scan :: "jsstring \<Rightarrow> nat \<Rightarrow> jsstring list \<Rightarrow> jsstring list \<times> nat" where
  "scan s lastIndex rawSet =
     (case exec looseRe s lastIndex of
        (None, l) \<Rightarrow> (rawSet, l)
      | (Some m, l) \<Rightarrow> scan s l (setAdd m rawSet))"
  by pat_completeness auto
termination
proof (relation "measure (\<lambda>(s, lastIndex, rawSet). Suc (length s) - lastIndex)", goal_cases)
  case 1
  then show ?case by simp
next
  case (2 s lastIndex rawSet x l m)
  then have "exec looseRe s lastIndex = (Some m, l)" by simp
  from exec_looseRe_advances [OF this] show ?case by auto
qed

text \<open>The second \<open>each\<close>: every attribute value of every element, in document order.\<close>

fun scanValues :: "jsstring list \<Rightarrow> nat \<Rightarrow> jsstring list \<Rightarrow> jsstring list \<times> nat" where
  "scanValues [] lastIndex rawSet = (rawSet, lastIndex)"
| "scanValues (val # vals) lastIndex rawSet =
     (case scan val lastIndex rawSet of (rawSet', l) \<Rightarrow> scanValues vals l rawSet')"

definition attributeValues :: "node list \<Rightarrow> jsstring list" where
  "attributeValues doc = concat (map (\<lambda>el. map snd (attribs el)) (selectAll doc))"

definition imageExts :: "jsstring list" where
  "imageExts = map str [''png'', ''jpg'', ''jpeg'', ''gif'', ''svg'', ''webp'', ''bmp'', ''tiff'']"

text \<open>One pass of the loop over \<open>rawSet\<close>.\<close>

definition sanitize :: "jsstring \<Rightarrow> jsstring list \<Rightarrow> jsstring list" where
  "sanitize raw cleanSet =
     (let raw' = (case decodeURIComponent raw of Inl e \<Rightarrow> raw | Inr d \<Rightarrow> d) in
      case match strictRe raw' of
        None \<Rightarrow> cleanSet
      | Some found \<Rightarrow>
          (let email = toLowerCase found in
           if splitPop 46 email \<in> set imageExts then cleanSet else setAdd email cleanSet))"

text \<open>The three harvests, pooled in \<open>rawSet\<close>.\<close>

definition harvest :: "nat \<Rightarrow> node list \<Rightarrow> exn + jsstring list" where
  "harvest stack doc =
     (case addMailto (selectMailto doc) [] of
        Inl e \<Rightarrow> Inl e
      | Inr rawSet1 \<Rightarrow>
          (case textOf stack (selectBody doc) of
             Inl e \<Rightarrow> Inl e
           | Inr bodyText \<Rightarrow>
               (case scan bodyText 0 rawSet1 of
                  (rawSet2, l) \<Rightarrow> Inr (fst (scanValues (attributeValues doc) l rawSet2)))))"

text \<open>
  \<open>basicScrape\<close> on the parsed tree, and on markup. It runs in a runtime with the
  given \<open>stack\<close> and with the parser \<open>load\<close>.
\<close>

definition scrapeDocument :: "nat \<Rightarrow> node list \<Rightarrow> exn + jsstring list" where
  "scrapeDocument stack doc0 =
     (case harvest stack (removeScriptStyle doc0) of
        Inl e \<Rightarrow> Inl e
      | Inr rawSet \<Rightarrow> Inr (fold sanitize rawSet []))"

definition basicScrape ::
  "nat \<Rightarrow> (jsstring \<Rightarrow> node list) \<Rightarrow> jsstring \<Rightarrow> exn + jsstring list" where
  "basicScrape stack load html = scrapeDocument stack (load html)"

section \<open>Properties of basicScrape\<close>

text \<open>The tree of a page with the given nodes in its body, and of a page of plain text.\<close>

definition pageOf :: "node list \<Rightarrow> node list" where
  "pageOf bodyNodes =
     [Element (str ''html'') []
        [Element (str ''head'') [] [], Element (str ''body'') [] bodyNodes]]"

definition textPage :: "jsstring \<Rightarrow> node list" where
  "textPage s = pageOf [Text s]"

subsection \<open>What basicScrape throws\<close>

text \<open>The number of elements nested in one another, in a node and in a list of nodes.\<close>

fun depth :: "node \<Rightarrow> nat" where
  "depth (Element t as cs) = Suc (fold max (map depth cs) 0)"
| "depth (Text d) = 0"
| "depth (Comment d) = 0"
| "depth (Directive d) = 0"

definition depthAll :: "node list \<Rightarrow> nat" where
  "depthAll ns = fold max (map depth ns) 0"

lemma fold_max_le: "fold max xs a \<le> b \<longleftrightarrow> a \<le> b \<and> (\<forall>x\<in>set xs. x \<le> (b::nat))"
  by (induction xs arbitrary: a) auto

lemma depthAll_le: "depthAll ns \<le> d \<longleftrightarrow> (\<forall>n\<in>set ns. depth n \<le> d)"
  by (simp add: depthAll_def fold_max_le)

lemma depth_Element_le: "depth (Element t as cs) \<le> d \<longleftrightarrow> 0 < d \<and> depthAll cs \<le> d - 1"
  by (cases d) (auto simp: depthAll_def)

lemma joinAll_Inr:
  "(\<exists>s. joinAll rs = Inr s) \<longleftrightarrow> (\<forall>r\<in>set rs. \<exists>s. r = Inr s)"
proof (induction rs)
  case Nil
  then show ?case by simp
next
  case (Cons r rs)
  then show ?case by (cases r) (auto split: sum.splits)
qed



lemma textContent_returns: "depth n \<le> stack \<Longrightarrow> \<exists>s. textContent stack n = Inr s"
proof (induction n arbitrary: stack)
  case (Element t as cs)
  from Element.prems have "0 < stack \<and> depthAll cs \<le> stack - 1"
    by (simp only: depth_Element_le)
  then have pos: "0 < stack" and cs: "\<forall>c\<in>set cs. depth c \<le> stack - 1"
    by (simp_all add: depthAll_le)
  have "\<forall>r\<in>set (map (textContent (stack - 1)) cs). \<exists>s. r = Inr s"
    using Element.IH cs by auto
  then have "\<exists>s. joinAll (map (textContent (stack - 1)) cs) = Inr s"
    by (simp only: joinAll_Inr)
  with pos show ?case by simp
qed simp_all


lemma textOf_returns: "depthAll els \<le> stack \<Longrightarrow> \<exists>s. textOf stack els = Inr s"
  unfolding textOf_def joinAll_Inr depthAll_le by (auto dest: textContent_returns)

text \<open>Removing and selecting do not make a tree deeper.\<close>

lemma depth_removeIn: "depth (removeIn n) \<le> depth n"
proof (induction n)
  case (Element t as cs)
  have "depthAll (map removeIn (filter (\<lambda>c. \<not> scriptOrStyle c) cs)) \<le> depthAll cs"
    unfolding depthAll_le
  proof
    fix n assume "n \<in> set (map removeIn (filter (\<lambda>c. \<not> scriptOrStyle c) cs))"
    then obtain c where c: "c \<in> set cs" "n = removeIn c" by auto
    with Element.IH have "depth n \<le> depth c" by simp
    moreover from c have "depth c \<le> depthAll cs"
      using depthAll_le [of cs "depthAll cs"] by simp
    ultimately show "depth n \<le> depthAll cs" by simp
  qed
  then show ?case by (simp add: depthAll_def)
qed simp_all

lemma depthAll_removeScriptStyle: "depthAll (removeScriptStyle doc) \<le> depthAll doc"
  unfolding depthAll_le removeScriptStyle_def
proof
  fix n assume "n \<in> set (map removeIn (filter (\<lambda>c. \<not> scriptOrStyle c) doc))"
  then obtain c where c: "c \<in> set doc" "n = removeIn c" by auto
  from c have "depth c \<le> depthAll doc" using depthAll_le [of doc "depthAll doc"] by simp
  with depth_removeIn [of c] c show "depth n \<le> depthAll doc" by simp
qed

lemma depth_elementsOf: "el \<in> set (elementsOf n) \<Longrightarrow> depth el \<le> depth n"
proof (induction n)
  case (Element t as cs)
  from Element.prems consider "el = Element t as cs" | c where "c \<in> set cs" "el \<in> set (elementsOf c)"
    by auto
  then show ?case
  proof cases
    case 1
    then show ?thesis by simp
  next
    case 2
    with Element.IH have "depth el \<le> depth c" by simp
    moreover from 2 have "depth c \<le> depthAll cs"
      using depthAll_le [of cs "depthAll cs"] by simp
    ultimately show ?thesis by (simp add: depthAll_def)
  qed
qed simp_all

lemma depthAll_selectBody: "depthAll (selectBody doc) \<le> depthAll doc"
  unfolding depthAll_le
proof
  fix el assume "el \<in> set (selectBody doc)"
  then obtain n where n: "n \<in> set doc" "el \<in> set (elementsOf n)"
    by (auto simp: selectBody_def selectAll_def)
  from n have "depth n \<le> depthAll doc" using depthAll_le [of doc "depthAll doc"] by simp
  with depth_elementsOf [OF n(2)] show "depth el \<le> depthAll doc" by simp
qed

lemma addMailto_returns:
  "\<forall>el\<in>set els. mailtoLink el \<Longrightarrow> \<exists>rawSet'. addMailto els rawSet = Inr rawSet'"
proof (induction els arbitrary: rawSet)
  case Nil
  then show ?case by simp
next
  case (Cons el els)
  then obtain href where "attr el (str ''href'') = Some href"
    by (auto simp: mailtoLink_def split: option.splits)
  with Cons show ?case by simp
qed

lemma selectMailto_returns: "\<exists>rawSet. addMailto (selectMailto doc) [] = Inr rawSet"
  by (rule addMailto_returns) (simp add: selectMailto_def)


lemma harvest_returns:
  "depthAll doc \<le> stack \<Longrightarrow> \<exists>rawSet. harvest stack doc = Inr rawSet"
proof -
  assume "depthAll doc \<le> stack"
  with depthAll_selectBody [of doc] have "depthAll (selectBody doc) \<le> stack" by simp
  from textOf_returns [OF this] selectMailto_returns [of doc] show ?thesis
    by (auto simp: harvest_def split: prod.splits)
qed


lemma scrapeDocument_returns:
  "depthAll doc \<le> stack \<Longrightarrow> \<exists>emails. scrapeDocument stack doc = Inr emails"
proof -
  assume "depthAll doc \<le> stack"
  with depthAll_removeScriptStyle [of doc] have "depthAll (removeScriptStyle doc) \<le> stack"
    by simp
  from harvest_returns [OF this] show ?thesis by (auto simp: scrapeDocument_def)
qed




lemma tag_names:
  "str ''div'' \<noteq> str ''script''" "str ''div'' \<noteq> str ''style''" "str ''div'' \<noteq> str ''a''"
  "str ''div'' \<noteq> str ''body''" "str ''html'' \<noteq> str ''script''" "str ''html'' \<noteq> str ''style''"
  "str ''html'' \<noteq> str ''a''" "str ''html'' \<noteq> str ''body''" "str ''head'' \<noteq> str ''script''"
  "str ''head'' \<noteq> str ''style''" "str ''head'' \<noteq> str ''a''" "str ''head'' \<noteq> str ''body''"
  "str ''body'' \<noteq> str ''script''" "str ''body'' \<noteq> str ''style''" "str ''body'' \<noteq> str ''a''"
  by (simp_all add: str_def)












lemma scrape_hi:
  "scrapeDocument 1000 (textPage (str ''hi@example.org'')) = Inr [str ''hi@example.org'']"
  by code_simp




subsection \<open>cleanSet\<close>

lemma lowerUnit_idem: "lowerUnit (lowerUnit c) = lowerUnit c"
  by (simp add: lowerUnit_def isUpper_def)

lemma toLowerCase_idem: "toLowerCase (toLowerCase s) = toLowerCase s"
  by (simp add: toLowerCase_def lowerUnit_idem)

definition canonical :: "jsstring list \<Rightarrow> bool" where
  "canonical cs = (distinct cs \<and> (\<forall>e\<in>set cs. toLowerCase e = e))"

lemma sanitize_canonical: "canonical cs \<Longrightarrow> canonical (sanitize raw cs)"
  by (auto simp: canonical_def sanitize_def setAdd_def Let_def toLowerCase_idem
      split: option.splits)

lemma fold_sanitize_canonical: "canonical cs \<Longrightarrow> canonical (fold sanitize rawSet cs)"
  by (induction rawSet arbitrary: cs) (auto simp: sanitize_canonical)

lemma scrapeDocument_canonical: "scrapeDocument stack doc = Inr out \<Longrightarrow> canonical out"
  using fold_sanitize_canonical [of "[]"]
  by (auto simp: scrapeDocument_def canonical_def split: sum.splits)

lemma canonical_distinct_lower: "canonical out \<Longrightarrow> distinct (map toLowerCase out)"
  by (simp add: canonical_def map_idI)

text \<open>
  Claim C6. For every parser and every markup, the list that \<open>basicScrape\<close> returns
  has no two entries that are equal up to case, and every entry is in lower case; and
  \<open>basicScrape\<close> returns such a list whenever the tree is no deeper than the stack
  allows.
\<close>

theorem basicScrape_canonical:
  "(basicScrape stack ld html = Inr out
      \<longrightarrow> distinct (map toLowerCase out) \<and> (\<forall>e\<in>set out. toLowerCase e = e)) \<and>
   (depthAll (ld html) \<le> stack
      \<longrightarrow> (\<exists>emails. basicScrape stack ld html = Inr emails \<and>
            distinct (map toLowerCase emails) \<and> (\<forall>e\<in>set emails. toLowerCase e = e)))"
proof -
  have c: "distinct (map toLowerCase emails) \<and> (\<forall>e\<in>set emails. toLowerCase e = e)"
    if "basicScrape stack ld html = Inr emails" for emails
  proof -
    from that have "scrapeDocument stack (ld html) = Inr emails" by (simp add: basicScrape_def)
    from scrapeDocument_canonical [OF this] canonical_distinct_lower [of emails]
    show ?thesis by (auto simp: canonical_def)
  qed
  have "\<exists>emails. basicScrape stack ld html = Inr emails" if "depthAll (ld html) \<le> stack"
    using scrapeDocument_returns [OF that] by (simp add: basicScrape_def)
  with c show ?thesis by blast
qed

lemma scrape_two_cases:
  "scrapeDocument 1000 (textPage (str ''A@B.com a@b.com'')) = Inr [str ''a@b.com'']"
  by code_simp

text \<open>Text with \<open>A@B.com\<close> and \<open>a@b.com\<close> yields the one entry \<open>a@b.com\<close>.\<close>

theorem basicScrape_canonical_witness:
  "basicScrape 1000 textPage (str ''A@B.com a@b.com'') = Inr [str ''a@b.com''] \<and>
   distinct (map toLowerCase [str ''a@b.com'']) \<and>
   toLowerCase (str ''a@b.com'') = str ''a@b.com''"
proof -
  have r: "basicScrape 1000 textPage (str ''A@B.com a@b.com'') = Inr [str ''a@b.com'']"
    by (simp add: basicScrape_def scrape_two_cases)
  from basicScrape_canonical [of 1000 textPage "str ''A@B.com a@b.com''" "[str ''a@b.com'']"] r
  show ?thesis by simp
qed

subsection \<open>script and style\<close>

lemma scriptOrStyle_removeIn: "scriptOrStyle (removeIn n) = scriptOrStyle n"
  by (cases n) (simp_all add: scriptOrStyle_def)

lemma removeIn_idem: "removeIn (removeIn n) = removeIn n"
proof (induction n)
  case (Element t as cs)
  have "filter (\<lambda>c. \<not> scriptOrStyle c) (map removeIn (filter (\<lambda>c. \<not> scriptOrStyle c) cs))
        = map removeIn (filter (\<lambda>c. \<not> scriptOrStyle c) cs)"
    by (simp add: filter_map comp_def scriptOrStyle_removeIn)
  with Element show ?case by simp
qed simp_all

lemma removeScriptStyle_idem: "removeScriptStyle (removeScriptStyle doc) = removeScriptStyle doc"
  by (simp add: removeScriptStyle_def filter_map comp_def scriptOrStyle_removeIn removeIn_idem)

text \<open>
  \<open>alter f\<close> rewrites a tree from the outside in: every element named \<open>script\<close>
  or \<open>style\<close> that it meets is replaced by what \<open>f\<close> makes of it, and nothing else
  changes. When \<open>f\<close> keeps the tag name, the two trees differ only in the attributes
  and in the content of their script and style elements.
\<close>

fun alter :: "(node \<Rightarrow> node) \<Rightarrow> node \<Rightarrow> node" where
  "alter f (Element t as cs) =
     (if t = str ''script'' \<or> t = str ''style'' then f (Element t as cs)
      else Element t as (map (alter f) cs))"
| "alter f (Text d) = Text d"
| "alter f (Comment d) = Comment d"
| "alter f (Directive d) = Directive d"

lemma scriptOrStyle_alter:
  "\<forall>n. tagName (f n) = tagName n \<Longrightarrow> scriptOrStyle (alter f n) = scriptOrStyle n"
  by (cases n) (auto simp: scriptOrStyle_def)

lemma removeIn_alter:
  assumes "\<forall>n. tagName (f n) = tagName n" and "\<not> scriptOrStyle n"
  shows "removeIn (alter f n) = removeIn n"
  using assms(2)
proof (induction n)
  case (Element t as cs)
  then have t: "\<not> (t = str ''script'' \<or> t = str ''style'')" by (simp add: scriptOrStyle_def)
  have "map removeIn (filter (\<lambda>c. \<not> scriptOrStyle c) (map (alter f) cs))
        = map removeIn (filter (\<lambda>c. \<not> scriptOrStyle c) cs)"
    using Element.IH
    by (induction cs) (simp_all add: scriptOrStyle_alter [OF assms(1)])
  with t show ?case by simp
qed simp_all

lemma removeScriptStyle_alter:
  assumes "\<forall>n. tagName (f n) = tagName n"
  shows "removeScriptStyle (map (alter f) doc) = removeScriptStyle doc"
  unfolding removeScriptStyle_def
  by (induction doc) (simp_all add: scriptOrStyle_alter [OF assms] removeIn_alter [OF assms])

lemma scan_nothing: "scan [] 0 [] = ([], 0)"
  by code_simp

lemma scrape_only_hidden:
  assumes "\<forall>n\<in>set kids. scriptOrStyle n" and "0 < stack"
  shows "scrapeDocument stack (pageOf kids) = Inr []"
proof -
  from assms(1) have "filter (\<lambda>c. \<not> scriptOrStyle c) kids = []"
    by (simp add: filter_empty_conv)
  then have "removeScriptStyle (pageOf kids) = pageOf []"
    by (simp add: removeScriptStyle_def pageOf_def scriptOrStyle_def tag_names)
  moreover have "harvest stack (pageOf []) = Inr []"
    using assms(2)
    by (simp add: harvest_def selectMailto_def selectBody_def selectAll_def pageOf_def
        mailtoLink_def tag_names textOf_def attributeValues_def scan_nothing
        del: scan.simps)
  ultimately show ?thesis by (simp add: scrapeDocument_def)
qed

text \<open>
  The trees of a body with a line of text, a script element and a style element, and of
  the same body with the two elements emptied.
\<close>

definition hiddenDoc :: "node list" where
  "hiddenDoc =
     pageOf [Text (str ''seen@example.org''),
             Element (str ''script'') [(str ''data-contact'', str ''attr@hid.den'')]
               [Text (str ''var m = \"hid@den.com\"'')],
             Element (str ''style'') [] [Text (str ''/* sty@le.com */'')]]"

definition emptied :: "node \<Rightarrow> node" where
  "emptied n = (case n of Element t as cs \<Rightarrow> Element t [] [] | _ \<Rightarrow> n)"

lemma emptied_tag: "\<forall>n. tagName (emptied n) = tagName n"
  by (auto simp: emptied_def split: node.splits)

lemma alter_hiddenDoc:
  "map (alter emptied) hiddenDoc =
     pageOf [Text (str ''seen@example.org''), Element (str ''script'') [] [],
             Element (str ''style'') [] []]"
  by (simp add: hiddenDoc_def pageOf_def emptied_def tag_names)

lemma scrape_emptied:
  "scrapeDocument 1000
     (pageOf [Text (str ''seen@example.org''), Element (str ''script'') [] [],
              Element (str ''style'') [] []])
   = Inr [str ''seen@example.org'']"
  by code_simp

text \<open>
  Claim C7. Take any tree, and replace each of its script and style elements by an
  element of the same name with any attributes and any content: \<open>basicScrape\<close>
  returns for the new tree what it returns for the old one. So no text and no attribute
  inside a script or style subtree contributes an entry, or takes one away. The result
  is also the result for the tree from which these subtrees are deleted, and a page
  whose body holds script and style elements only yields no entry at all.
\<close>

theorem basicScrape_ignores_scripts:
  "((\<forall>n. tagName (f n) = tagName n) \<and> ld html' = map (alter f) (ld html)
      \<longrightarrow> basicScrape stack ld html' = basicScrape stack ld html) \<and>
   basicScrape stack ld html = scrapeDocument stack (removeScriptStyle (ld html)) \<and>
   ((\<forall>n\<in>set kids. scriptOrStyle n) \<and> 0 < stack \<and> ld html = pageOf kids
      \<longrightarrow> basicScrape stack ld html = Inr [])"
proof (intro conjI impI)
  assume "(\<forall>n. tagName (f n) = tagName n) \<and> ld html' = map (alter f) (ld html)"
  then show "basicScrape stack ld html' = basicScrape stack ld html"
    by (simp add: basicScrape_def scrapeDocument_def removeScriptStyle_alter)
next
  show "basicScrape stack ld html = scrapeDocument stack (removeScriptStyle (ld html))"
    by (simp add: basicScrape_def scrapeDocument_def removeScriptStyle_idem)
next
  assume "(\<forall>n\<in>set kids. scriptOrStyle n) \<and> 0 < stack \<and> ld html = pageOf kids"
  then show "basicScrape stack ld html = Inr []"
    by (simp add: basicScrape_def scrape_only_hidden)
qed

theorem basicScrape_ignores_scripts_witness:
  "basicScrape 1000 (\<lambda>html. if html = [] then hiddenDoc else map (alter emptied) hiddenDoc)
     [] = Inr [str ''seen@example.org''] \<and>
   basicScrape 1000
     (\<lambda>html. pageOf [Element (str ''script'') [] [Text (str ''hid@den.com'')],
                      Element (str ''style'') [(str ''title'', str ''sty@le.com'')] []])
     [] = Inr []"
proof -
  let ?ld = "\<lambda>html::jsstring. if html = [] then hiddenDoc else map (alter emptied) hiddenDoc"
  let ?ld2 = "\<lambda>html::jsstring. pageOf [Element (str ''script'') [] [Text (str ''hid@den.com'')],
                      Element (str ''style'') [(str ''title'', str ''sty@le.com'')] []]"
  have "?ld [0] = map (alter emptied) (?ld [])" by simp
  with basicScrape_ignores_scripts [of emptied ?ld "[0]" "[]" 1000] emptied_tag
  have "basicScrape 1000 ?ld [] = basicScrape 1000 ?ld [0]" by simp
  also have "\<dots> = Inr [str ''seen@example.org'']"
    by (simp add: basicScrape_def alter_hiddenDoc scrape_emptied)
  finally have 1: "basicScrape 1000 ?ld [] = Inr [str ''seen@example.org'']" .
  have "\<forall>n\<in>set [Element (str ''script'') [] [Text (str ''hid@den.com'')],
                      Element (str ''style'') [(str ''title'', str ''sty@le.com'')] []].
          scriptOrStyle n"
    by (simp add: scriptOrStyle_def)
  with basicScrape_ignores_scripts [of emptied ?ld2 "[]" "[]" 1000
      "[Element (str ''script'') [] [Text (str ''hid@den.com'')],
        Element (str ''style'') [(str ''title'', str ''sty@le.com'')] []]",
      THEN conjunct2, THEN conjunct2]
  have 2: "basicScrape 1000 ?ld2 [] = Inr []" by simp
  from 1 2 show ?thesis by simp
qed


subsection \<open>The strict match\<close>




























section \<open>The outside world\<close>

text \<open>
  \<open>fetch\<close>, the headless browser and the file system are outside the program. Each
  call is an event of a trace, and the outcome of a call is given by the \<open>world\<close>, as
  a function of the trace so far and of the arguments: a value, or the exception with
  which the call rejects. \<open>fetch\<close> resolves with a response for every HTTP status,
  and the source never reads the status. The log lines are events too. The world also
  holds the two things that \<open>basicScrape\<close> takes from its surroundings: the depth
  \<open>stack\<close> that the call stack leaves to \<open>.text()\<close>, and the parser.
\<close>

record response =
  res_url :: jsstring
  res_status :: nat
  res_text :: "exn + jsstring"

datatype event =
    Fetch jsstring jsstring bool
  | LogRedirected jsstring jsstring
  | LogRendering jsstring
  | NewPage bool
  | SetUserAgent jsstring bool
  | Goto jsstring bool
  | Content bool
  | WarnPuppeteer jsstring exn
  | ClosePage bool
  | LogScraped jsstring nat
  | ErrorFailed jsstring exn
  | ErrorNoData
  | WarnTitle jsstring
  | Launch bool
  | CloseBrowser bool
  | WriteFile jsstring jsstring bool
  | LogDone jsstring

type_synonym row = "(jsstring \<times> jsstring) list"

record world =
  fetch :: "event list \<Rightarrow> jsstring \<Rightarrow> jsstring \<Rightarrow> exn + response"
  newPage :: "event list \<Rightarrow> exn + unit"
  setUserAgent :: "event list \<Rightarrow> jsstring \<Rightarrow> exn + unit"
  goto :: "event list \<Rightarrow> jsstring \<Rightarrow> exn + unit"
  content :: "event list \<Rightarrow> exn + jsstring"
  closePage :: "event list \<Rightarrow> exn + unit"
  launch :: "event list \<Rightarrow> exn + unit"
  closeBrowser :: "event list \<Rightarrow> exn + unit"
  writeFileSync :: "event list \<Rightarrow> jsstring \<Rightarrow> jsstring \<Rightarrow> exn + unit"
  stack :: nat
  load :: "jsstring \<Rightarrow> node list"
  parse :: "jsstring \<Rightarrow> exn + row list"

definition BROWSER_UA :: jsstring where
  "BROWSER_UA = str ''Mozilla/5.0 (Windows NT 10.0; Win64; x64) '' @
                str ''AppleWebKit/537.36 (KHTML, like Gecko) '' @
                str ''Chrome/114.0.0.0 Safari/537.36''"

section \<open>scrapeEmails\<close>

text \<open>
  The \<open>try\<close> block of the fallback: the value it computes or the exception it throws,
  whether \<open>page\<close> has been assigned, and the trace.
\<close>

definition renderTry ::
  "world \<Rightarrow> jsstring \<Rightarrow> event list \<Rightarrow> (exn + jsstring list) \<times> bool \<times> event list" where
  "renderTry w finalUrl t =
     (case newPage w t of
        Inl err \<Rightarrow> (Inl err, False, t @ [NewPage False])
      | Inr _ \<Rightarrow>
          (let t1 = t @ [NewPage True] in
           case setUserAgent w t1 BROWSER_UA of
             Inl err \<Rightarrow> (Inl err, True, t1 @ [SetUserAgent BROWSER_UA False])
           | Inr _ \<Rightarrow>
               (let t2 = t1 @ [SetUserAgent BROWSER_UA True] in
                case goto w t2 finalUrl of
                  Inl err \<Rightarrow> (Inl err, True, t2 @ [Goto finalUrl False])
                | Inr _ \<Rightarrow>
                    (let t3 = t2 @ [Goto finalUrl True] in
                     case content w t3 of
                       Inl err \<Rightarrow> (Inl err, True, t3 @ [Content False])
                     | Inr rendered \<Rightarrow>
                         (basicScrape (stack w) (load w) rendered, True,
                          t3 @ [Content True])))))"

text \<open>
  \<open>try\<close>, \<open>catch\<close> and \<open>finally\<close>: an exception of the block is logged and
  leaves \<open>emails\<close> as it was; then the page, if there is one, is closed, and an
  exception of \<open>page.close()\<close> leaves the function.
\<close>

definition render ::
  "world \<Rightarrow> jsstring \<Rightarrow> jsstring list \<Rightarrow> event list \<Rightarrow> (exn + jsstring list) \<times> event list" where
  "render w finalUrl emails t =
     (case renderTry w finalUrl t of
        (r, page, t1) \<Rightarrow>
          (let emails' = (case r of Inl err \<Rightarrow> emails | Inr found \<Rightarrow> found);
               t2 = (case r of Inl err \<Rightarrow> t1 @ [WarnPuppeteer finalUrl err] | Inr found \<Rightarrow> t1)
           in if page then
                (case closePage w t2 of
                   Inl err \<Rightarrow> (Inl err, t2 @ [ClosePage False])
                 | Inr _ \<Rightarrow> (Inr emails', t2 @ [ClosePage True]))
              else (Inr emails', t2)))"

definition scrapeEmails ::
  "world \<Rightarrow> jsstring \<Rightarrow> event list \<Rightarrow> (exn + jsstring list) \<times> event list" where
  "scrapeEmails w url t =
     (case fetch w t url BROWSER_UA of
        Inl err \<Rightarrow> (Inl err, t @ [Fetch url BROWSER_UA False])
      | Inr res \<Rightarrow>
          (let t1 = t @ [Fetch url BROWSER_UA True];
               finalUrl = res_url res;
               t2 = (if finalUrl \<noteq> url then t1 @ [LogRedirected url finalUrl] else t1)
           in case res_text res of
                Inl err \<Rightarrow> (Inl err, t2)
              | Inr html \<Rightarrow>
                  (case basicScrape (stack w) (load w) html of
                     Inl err \<Rightarrow> (Inl err, t2)
                   | Inr emails \<Rightarrow>
                       if length emails = 0
                       then render w finalUrl emails (t2 @ [LogRendering finalUrl])
                       else (Inr emails, t2))))"

section \<open>The batch\<close>

subsection \<open>JSON.stringify of an array of strings\<close>

definition hexDigit :: "nat \<Rightarrow> nat" where
  "hexDigit d = (if d < 10 then 48 + d else 87 + d)"

definition unicodeEscape :: "nat \<Rightarrow> jsstring" where
  "unicodeEscape c =
     [92, 117, hexDigit (c div 4096 mod 16), hexDigit (c div 256 mod 16),
      hexDigit (c div 16 mod 16), hexDigit (c mod 16)]"

definition highSurrogate :: "nat \<Rightarrow> bool" where
  "highSurrogate c = (55296 \<le> c \<and> c \<le> 56319)"

definition lowSurrogate :: "nat \<Rightarrow> bool" where
  "lowSurrogate c = (56320 \<le> c \<and> c \<le> 57343)"

definition quoteUnit :: "nat \<Rightarrow> jsstring" where
  "quoteUnit c =
     (if c = 8 then [92, 98]
      else if c = 9 then [92, 116]
      else if c = 10 then [92, 110]
      else if c = 12 then [92, 102]
      else if c = 13 then [92, 114]
      else if c = 34 then [92, 34]
      else if c = 92 then [92, 92]
      else if c < 32 \<or> highSurrogate c \<or> lowSurrogate c then unicodeEscape c
      else [c])"

text \<open>A surrogate pair is copied; a surrogate on its own is escaped.\<close>

fun quoteUnits :: "jsstring \<Rightarrow> jsstring" where
  "quoteUnits [] = []"
| "quoteUnits [c] = quoteUnit c"
| "quoteUnits (c # d # ds) =
     (if highSurrogate c \<and> lowSurrogate d then c # d # quoteUnits ds
      else quoteUnit c @ quoteUnits (d # ds))"

definition quoteJSONString :: "jsstring \<Rightarrow> jsstring" where
  "quoteJSONString x = [34] @ quoteUnits x @ [34]"

definition JSON_stringify :: "jsstring list \<Rightarrow> jsstring" where
  "JSON_stringify xs = [91] @ join [44] (map quoteJSONString xs) @ [93]"

subsection \<open>Records\<close>

text \<open>
  A record of the table is an object: its columns with their values, in the order in
  which \<open>Object.keys\<close> lists them. \<open>rec[k]\<close> reads a property (\<open>undefined\<close> is
  \<open>None\<close>); \<open>rec[k] = v\<close> overwrites a property in place or appends a new one.
\<close>

definition getProp :: "row \<Rightarrow> jsstring \<Rightarrow> jsstring option" where
  "getProp r k = map_of r k"

fun assign :: "row \<Rightarrow> jsstring \<Rightarrow> jsstring \<Rightarrow> row" where
  "assign [] k v = [(k, v)]"
| "assign ((k', v') # r) k v = (if k' = k then (k, v) # r else (k', v') # assign r k v)"

text \<open>One pass of the loop over the records.\<close>

definition scrapeRecord :: "world \<Rightarrow> row \<Rightarrow> event list \<Rightarrow> row \<times> event list" where
  "scrapeRecord w r t =
     (case getProp r (str ''website'') of
        None \<Rightarrow> (assign r (str ''emails'') (str ''[]''), t)
      | Some url \<Rightarrow>
          if url = [] then (assign r (str ''emails'') (str ''[]''), t)
          else
            (case scrapeEmails w url t of
               (Inr emails, t1) \<Rightarrow>
                 (assign r (str ''emails'') (JSON_stringify emails),
                  t1 @ [LogScraped url (length emails)])
             | (Inl err, t1) \<Rightarrow>
                 (assign r (str ''emails'') (str ''\"ERROR\"''), t1 @ [ErrorFailed url err])))"

fun scrapeRecords :: "world \<Rightarrow> row list \<Rightarrow> event list \<Rightarrow> row list \<times> event list" where
  "scrapeRecords w [] t = ([], t)"
| "scrapeRecords w (r # rs) t =
     (case scrapeRecord w r t of
        (r', t1) \<Rightarrow> (case scrapeRecords w rs t1 of (rs', t2) \<Rightarrow> (r' # rs', t2)))"

subsection \<open>The output table\<close>

text \<open>\<^verbatim>\<open>`"${String(v).replace(/"/g, '""')}"`\<close>\<close>

definition escapeCell :: "jsstring \<Rightarrow> jsstring" where
  "escapeCell v = [34] @ concat (map (\<lambda>c. if c = 34 then [34, 34] else [c]) v) @ [34]"

definition finalHeaders :: "row list \<Rightarrow> jsstring list" where
  "finalHeaders records = map fst (hd records) @ [str ''emails'']"

definition cells :: "jsstring list \<Rightarrow> row \<Rightarrow> jsstring list" where
  "cells headers r = map (\<lambda>h. escapeCell (case getProp r h of None \<Rightarrow> [] | Some v \<Rightarrow> v)) headers"

definition lines :: "row list \<Rightarrow> jsstring list" where
  "lines records =
     join [44] (finalHeaders records) # map (\<lambda>r. join [44] (cells (finalHeaders records) r)) records"

subsection \<open>The output file name\<close>

definition SHEET_EDIT_URL :: jsstring where
  "SHEET_EDIT_URL =
     str ''https://docs.google.com/spreadsheets/d/'' @
     str ''1xU0f6p24RBIfxQXAGXT0SDF1HG0urREDjYJKlJTy7WY/edit?gid=0#gid=0''"

text \<open>\<^verbatim>\<open>/\/edit.*$/\<close>: the dot matches every code unit but a line terminator.\<close>

definition editRe :: "atom list" where
  "editRe = lits ''/edit'' @
     [Rep 0 (\<lambda>c. c \<noteq> 10 \<and> c \<noteq> 13 \<and> c \<noteq> 8232 \<and> c \<noteq> 8233), EndOfInput]"

definition CSV_URL :: jsstring where
  "CSV_URL = replace editRe SHEET_EDIT_URL (str ''/gviz/tq?tqx=out:csv&gid=0'')"

text \<open>\<^verbatim>\<open>/<title>([^<]+)<\/title>/\<close> and \<^verbatim>\<open>/\s*-\s*Google Sheets$/\<close>.\<close>

definition titleRe :: "atom list" where
  "titleRe = lits ''<title>'' @ [Rep 1 (\<lambda>c. c \<noteq> 60)] @ lits ''</title>''"

definition suffixRe :: "atom list" where
  "suffixRe = [Rep 0 isWhiteSpace, Lit 45, Rep 0 isWhiteSpace] @ lits ''Google Sheets'' @
              [EndOfInput]"

text \<open>
  \<open>titleMatch[1]\<close>: the first group of the match lies between the seven code units of
  \<^verbatim>\<open><title>\<close> and the eight of \<^verbatim>\<open></title>\<close>.
\<close>

definition titleMatch :: "jsstring \<Rightarrow> jsstring option" where
  "titleMatch htmlDoc =
     (case search titleRe htmlDoc 0 of
        None \<Rightarrow> None
      | Some (i, j) \<Rightarrow> Some (substring htmlDoc (i + 7) (j - 8)))"

definition outFilename :: "world \<Rightarrow> event list \<Rightarrow> jsstring \<times> event list" where
  "outFilename w t =
     (case fetch w t SHEET_EDIT_URL BROWSER_UA of
        Inl err \<Rightarrow>
          (str ''output.csv'',
           t @ [Fetch SHEET_EDIT_URL BROWSER_UA False, WarnTitle (str ''output.csv'')])
      | Inr res \<Rightarrow>
          (let t1 = t @ [Fetch SHEET_EDIT_URL BROWSER_UA True] in
           case res_text res of
             Inl err \<Rightarrow> (str ''output.csv'', t1 @ [WarnTitle (str ''output.csv'')])
           | Inr htmlDoc \<Rightarrow>
               (case titleMatch htmlDoc of
                  None \<Rightarrow> (str ''output.csv'', t1)
                | Some title \<Rightarrow> (replace suffixRe title [] @ str ''.csv'', t1))))"

subsection \<open>The main function\<close>

datatype outcome = Rejected exn | NoData | Written jsstring jsstring

text \<open>\<^verbatim>\<open>.replace(/^\uFEFF/, '')\<close>\<close>

definition stripBOM :: "jsstring \<Rightarrow> jsstring" where
  "stripBOM s = (case s of [] \<Rightarrow> [] | c # cs \<Rightarrow> if c = 65279 then cs else s)"

text \<open>
  Steps C to E, once the records and the file name are there: an exception of
  \<open>puppeteer.launch\<close>, \<open>browser.close\<close> or \<open>writeFileSync\<close> rejects the run.
\<close>

definition scrapeAndWrite ::
  "world \<Rightarrow> row list \<Rightarrow> jsstring \<Rightarrow> event list \<Rightarrow> outcome \<times> event list" where
  "scrapeAndWrite w records name t =
     (case launch w t of
        Inl err \<Rightarrow> (Rejected err, t @ [Launch False])
      | Inr _ \<Rightarrow>
          (case scrapeRecords w records (t @ [Launch True]) of
             (records', t1) \<Rightarrow>
               (case closeBrowser w t1 of
                  Inl err \<Rightarrow> (Rejected err, t1 @ [CloseBrowser False])
                | Inr _ \<Rightarrow>
                    (let t2 = t1 @ [CloseBrowser True];
                         data = join [10] (lines records')
                     in case writeFileSync w t2 name data of
                          Inl err \<Rightarrow> (Rejected err, t2 @ [WriteFile name data False])
                        | Inr _ \<Rightarrow>
                            (Written name data,
                             t2 @ [WriteFile name data True, LogDone name])))))"

definition main :: "world \<Rightarrow> event list \<Rightarrow> outcome \<times> event list" where
  "main w t =
     (case fetch w t CSV_URL BROWSER_UA of
        Inl err \<Rightarrow> (Rejected err, t @ [Fetch CSV_URL BROWSER_UA False])
      | Inr resp \<Rightarrow>
          (let t1 = t @ [Fetch CSV_URL BROWSER_UA True] in
           case res_text resp of
             Inl err \<Rightarrow> (Rejected err, t1)
           | Inr body \<Rightarrow>
               (case parse w (stripBOM body) of
                  Inl err \<Rightarrow> (Rejected err, t1)
                | Inr records \<Rightarrow>
                    if length records = 0 then (NoData, t1 @ [ErrorNoData])
                    else
                      (case outFilename w t1 of
                         (name, t2) \<Rightarrow> scrapeAndWrite w records name t2))))"

section \<open>Worlds and documents for the examples\<close>

text \<open>
  A world in which the browser and the file system never fail and the stack lets
  \<open>.text()\<close> descend 1000 nested elements: \<open>f\<close> answers the static
  requests, \<open>g\<close> the navigations, \<open>rendered\<close> is the content of every rendered
  page and \<open>ld\<close> stands for the parser.
\<close>

definition demoWorld ::
  "(jsstring \<Rightarrow> exn + response) \<Rightarrow> (jsstring \<Rightarrow> exn + unit) \<Rightarrow> jsstring \<Rightarrow>
   (jsstring \<Rightarrow> node list) \<Rightarrow> world" where
  "demoWorld f g rendered ld =
     \<lparr>fetch = (\<lambda>t url ua. f url), newPage = (\<lambda>t. Inr ()), setUserAgent = (\<lambda>t ua. Inr ()),
      goto = (\<lambda>t url. g url), content = (\<lambda>t. Inr rendered), closePage = (\<lambda>t. Inr ()),
      launch = (\<lambda>t. Inr ()), closeBrowser = (\<lambda>t. Inr ()),
      writeFileSync = (\<lambda>t name data. Inr ()), stack = 1000, load = ld,
      parse = (\<lambda>s. Inr [])\<rparr>"

text \<open>The events of the browser's pages.\<close>

fun browserEvent :: "event \<Rightarrow> bool" where
  "browserEvent (NewPage b) = True"
| "browserEvent (SetUserAgent ua b) = True"
| "browserEvent (Goto u b) = True"
| "browserEvent (Content b) = True"
| "browserEvent (ClosePage b) = True"
| "browserEvent _ = False"

text \<open>The calls of \<open>page.close()\<close>.\<close>

fun closeCall :: "event \<Rightarrow> bool" where
  "closeCall (ClosePage b) = True"
| "closeCall _ = False"

text \<open>
  A world in which every navigation runs into the timeout, and one in which every
  request is redirected to another URL, finds a body without addresses, and the rendered
  page shows one.
\<close>

definition timeoutWorld :: world where
  "timeoutWorld =
     demoWorld
       (\<lambda>u. Inr \<lparr>res_url = u, res_status = 200, res_text = Inr (str ''nothing here'')\<rparr>)
       (\<lambda>u. Inl (Error ''Navigation timeout of 30000 ms exceeded'')) [] textPage"

definition renderWorld :: world where
  "renderWorld =
     demoWorld
       (\<lambda>u. Inr \<lparr>res_url = str ''http://b.example/'', res_status = 200,
                 res_text = Inr (str ''nothing here'')\<rparr>)
       (\<lambda>u. Inr ()) (str ''contact@example.org'') textPage"

section \<open>Properties of scrapeEmails\<close>

text \<open>
  Claim C4. When the body of the static response yields a non-empty list of addresses,
  \<open>scrapeEmails\<close> returns that list, and the events it adds to the trace contain no
  event of a browser page: the fallback is not entered and no page is opened.
\<close>

theorem scrapeEmails_no_escalation:
  assumes "fetch w t url BROWSER_UA = Inr res"
    and "res_text res = Inr html"
    and "basicScrape (stack w) (load w) html = Inr emails"
    and "emails \<noteq> []"
  shows "\<exists>evs. scrapeEmails w url t = (Inr emails, t @ evs) \<and> filter browserEvent evs = []"
  using assms by (simp add: scrapeEmails_def Let_def)

theorem scrapeEmails_no_escalation_witness:
  "scrapeEmails
     (demoWorld
        (\<lambda>u. Inr \<lparr>res_url = u, res_status = 200, res_text = Inr (str ''hi@example.org'')\<rparr>)
        (\<lambda>u. Inr ()) [] textPage)
     (str ''http://a.example'') []
   = (Inr [str ''hi@example.org''], [Fetch (str ''http://a.example'') BROWSER_UA True])"
proof -
  let ?w = "demoWorld
        (\<lambda>u. Inr \<lparr>res_url = u, res_status = 200, res_text = Inr (str ''hi@example.org'')\<rparr>)
        (\<lambda>u. Inr ()) [] textPage"
  let ?res = "\<lparr>res_url = str ''http://a.example'', res_status = 200,
               res_text = Inr (str ''hi@example.org'')\<rparr>"
  have 1: "fetch ?w [] (str ''http://a.example'') BROWSER_UA = Inr ?res"
    by (simp add: demoWorld_def)
  have 2: "res_text ?res = Inr (str ''hi@example.org'')" by simp
  have 3: "basicScrape (stack ?w) (load ?w) (str ''hi@example.org'')
      = Inr [str ''hi@example.org'']"
    by (simp add: demoWorld_def basicScrape_def scrape_hi)
  have 4: "[str ''hi@example.org''] \<noteq> []" by simp
  from scrapeEmails_no_escalation [OF 1 2 3 4]
  obtain evs where e: "scrapeEmails ?w (str ''http://a.example'') []
      = (Inr [str ''hi@example.org''], [] @ evs)"
    by blast
  have "snd (scrapeEmails ?w (str ''http://a.example'') [])
      = [Fetch (str ''http://a.example'') BROWSER_UA True]"
    by (simp add: scrapeEmails_def demoWorld_def Let_def basicScrape_def scrape_hi)
  with e show ?thesis by simp
qed

lemma scrape_nothing: "scrapeDocument 1000 (textPage (str ''nothing here'')) = Inr []"
  by code_simp

lemma scrape_contact:
  "scrapeDocument 1000 (textPage (str ''contact@example.org''))
   = Inr [str ''contact@example.org'']"
  by code_simp

text \<open>
  A world in which every navigation runs into the timeout and \<open>page.close()\<close>
  rejects as well.
\<close>

definition crashWorld :: world where
  "crashWorld = timeoutWorld\<lparr>closePage := (\<lambda>t. Inl (Error ''Protocol error: Target closed''))\<rparr>"

text \<open>
  Claim C5 as stated fails. After a navigation that timed out, the \<open>finally\<close> block
  awaits \<open>page.close()\<close>; when that call rejects, its exception leaves
  \<open>scrapeEmails\<close>, and the resolver fails instead of returning the empty list.
\<close>

theorem scrapeEmails_close_counterexample:
  "scrapeEmails crashWorld (str ''http://a.example/'') [] =
     (Inl (Error ''Protocol error: Target closed''),
      [Fetch (str ''http://a.example/'') BROWSER_UA True,
       LogRendering (str ''http://a.example/''),
       NewPage True, SetUserAgent BROWSER_UA True, Goto (str ''http://a.example/'') False,
       WarnPuppeteer (str ''http://a.example/'')
         (Error ''Navigation timeout of 30000 ms exceeded''),
       ClosePage False])"
  by (simp add: scrapeEmails_def render_def renderTry_def crashWorld_def timeoutWorld_def
      demoWorld_def Let_def basicScrape_def scrape_nothing)

text \<open>
  Claim C5 as amended. Let the static request resolve with a body in which
  \<open>basicScrape\<close> finds nothing, and let \<open>page.close()\<close> not throw. Then
  \<open>scrapeEmails\<close> enters the fallback, and a page that opens is navigated to the final
  URL of the response, \<open>res.url\<close>, not to the URL that was given. If the navigation
  succeeds, the result is what \<open>basicScrape\<close> finds in the rendered content, whatever
  that is, the empty list included. If the navigation fails, by timeout or otherwise,
  a warning is logged and the result is the empty list. In general the result is the
  list that the \<open>try\<close> block computes, or the empty list with a warning when the block
  throws: no exception of the block is a failure of \<open>scrapeEmails\<close>.
\<close>

theorem scrapeEmails_escalates:
  assumes "fetch w t url BROWSER_UA = Inr res"
    and "res_text res = Inr html"
    and "basicScrape (stack w) (load w) html = Inr []"
    and "start = t @ [Fetch url BROWSER_UA True]
              @ (if res_url res \<noteq> url then [LogRedirected url (res_url res)] else [])
              @ [LogRendering (res_url res)]"
    and "ready = start @ [NewPage True, SetUserAgent BROWSER_UA True]"
    and "\<forall>t'. closePage w t' = Inr ()"
  shows "(newPage w start = Inr () \<and>
          setUserAgent w (start @ [NewPage True]) BROWSER_UA = Inr () \<and>
          goto w ready (res_url res) = Inr () \<and>
          content w (ready @ [Goto (res_url res) True]) = Inr rendered \<and>
          basicScrape (stack w) (load w) rendered = Inr found
          \<longrightarrow> scrapeEmails w url t
              = (Inr found, ready @ [Goto (res_url res) True, Content True, ClosePage True]))
       \<and> (newPage w start = Inr () \<and>
          setUserAgent w (start @ [NewPage True]) BROWSER_UA = Inr () \<and>
          goto w ready (res_url res) = Inl err
          \<longrightarrow> scrapeEmails w url t
              = (Inr [], ready @ [Goto (res_url res) False, WarnPuppeteer (res_url res) err,
                               ClosePage True]))
       \<and> fst (scrapeEmails w url t)
           = Inr (case fst (renderTry w (res_url res) start) of
                    Inl e \<Rightarrow> [] | Inr found' \<Rightarrow> found')
       \<and> (\<forall>e. fst (renderTry w (res_url res) start) = Inl e
            \<longrightarrow> WarnPuppeteer (res_url res) e \<in> set (snd (scrapeEmails w url t)))"
proof -
  have s: "scrapeEmails w url t = render w (res_url res) [] start"
    using assms(1-4) by (simp add: scrapeEmails_def Let_def)
  show ?thesis
    unfolding s using assms(5,6)
    by (auto simp: render_def renderTry_def Let_def split: sum.splits)
qed

theorem scrapeEmails_escalates_witness:
  "scrapeEmails renderWorld (str ''http://a.example/'') [] =
     (Inr [str ''contact@example.org''],
      [Fetch (str ''http://a.example/'') BROWSER_UA True,
       LogRedirected (str ''http://a.example/'') (str ''http://b.example/''),
       LogRendering (str ''http://b.example/''),
       NewPage True, SetUserAgent BROWSER_UA True, Goto (str ''http://b.example/'') True,
       Content True, ClosePage True])
   \<and> scrapeEmails timeoutWorld (str ''http://a.example/'') [] =
     (Inr [],
      [Fetch (str ''http://a.example/'') BROWSER_UA True,
       LogRendering (str ''http://a.example/''),
       NewPage True, SetUserAgent BROWSER_UA True, Goto (str ''http://a.example/'') False,
       WarnPuppeteer (str ''http://a.example/'')
         (Error ''Navigation timeout of 30000 ms exceeded''),
       ClosePage True])"
proof -
  let ?a = "str ''http://a.example/''" and ?b = "str ''http://b.example/''"
  let ?resb = "\<lparr>res_url = ?b, res_status = 200, res_text = Inr (str ''nothing here'')\<rparr>"
  let ?resa = "\<lparr>res_url = ?a, res_status = 200, res_text = Inr (str ''nothing here'')\<rparr>"
  let ?start = "[Fetch ?a BROWSER_UA True, LogRedirected ?a ?b, LogRendering ?b]"
  let ?start' = "[Fetch ?a BROWSER_UA True, LogRendering ?a]"
  have ne: "?b \<noteq> ?a" by (simp add: str_def)
  have empty: "basicScrape 1000 textPage (str ''nothing here'') = Inr []"
    by (simp add: basicScrape_def scrape_nothing)
  have found: "basicScrape 1000 textPage (str ''contact@example.org'')
      = Inr [str ''contact@example.org'']"
    by (simp add: basicScrape_def scrape_contact)
  have 1: "scrapeEmails renderWorld ?a [] =
     (Inr [str ''contact@example.org''],
      (?start @ [NewPage True, SetUserAgent BROWSER_UA True])
        @ [Goto ?b True, Content True, ClosePage True])"
    using scrapeEmails_escalates [of renderWorld "[]" ?a ?resb "str ''nothing here''" ?start
        "?start @ [NewPage True, SetUserAgent BROWSER_UA True]"
        "str ''contact@example.org''" "[str ''contact@example.org'']", THEN conjunct1]
      ne empty found
    by (simp add: renderWorld_def demoWorld_def)
  have 2: "scrapeEmails timeoutWorld ?a [] =
     (Inr [],
      (?start' @ [NewPage True, SetUserAgent BROWSER_UA True])
        @ [Goto ?a False,
           WarnPuppeteer ?a (Error ''Navigation timeout of 30000 ms exceeded''),
           ClosePage True])"
    using scrapeEmails_escalates [of timeoutWorld "[]" ?a ?resa "str ''nothing here''" ?start'
        "?start' @ [NewPage True, SetUserAgent BROWSER_UA True]" "[]" "[]"
        "Error ''Navigation timeout of 30000 ms exceeded''", THEN conjunct2, THEN conjunct1]
      empty
    by (simp add: timeoutWorld_def demoWorld_def)
  from 1 2 show ?thesis by simp
qed

text \<open>
  Claim C9. Whatever the world does, the events that the fallback adds to the trace hold
  as many calls of \<open>page.close()\<close> as pages opened, and when a page has been opened
  the call of \<open>page.close()\<close> is the last event before the fallback returns: after
  a successful render, after a navigation that timed out or failed, and after any other
  exception of the \<open>try\<close> block. The flag of the event says whether that call
  itself succeeded.
\<close>

theorem render_closes_page:
  "\<exists>evs. snd (render w finalUrl emails t) = t @ evs \<and>
     length (filter closeCall evs) = length (filter (\<lambda>e. e = NewPage True) evs) \<and>
     (NewPage True \<in> set evs \<longrightarrow> (\<exists>b. last evs = ClosePage b))"
  by (auto simp: render_def renderTry_def Let_def split: sum.splits)

theorem render_closes_page_witness:
  "snd (render timeoutWorld (str ''http://a.example/'') [] []) =
     [NewPage True, SetUserAgent BROWSER_UA True, Goto (str ''http://a.example/'') False,
      WarnPuppeteer (str ''http://a.example/'') (Error ''Navigation timeout of 30000 ms exceeded''),
      ClosePage True]
   \<and> NewPage True \<in> set (snd (render timeoutWorld (str ''http://a.example/'') [] []))
   \<and> last (snd (render timeoutWorld (str ''http://a.example/'') [] [])) = ClosePage True"
  using render_closes_page [of timeoutWorld "str ''http://a.example/''" "[]" "[]"]
  by (simp add: render_def renderTry_def timeoutWorld_def demoWorld_def Let_def)


section \<open>Properties of the batch\<close>

text \<open>
  The reading of a cell of the output table, in the words of the specification: the
  cell is wrapped in double quotes, and every double quote inside it is doubled. A text
  that is not of this form is no cell.
\<close>

fun undouble :: "jsstring \<Rightarrow> jsstring option" where
  "undouble [] = Some []"
| "undouble [c] = (if c = 34 then None else Some [c])"
| "undouble (c # d # ds) =
     (if c = 34 then (if d = 34 then map_option (Cons 34) (undouble ds) else None)
      else map_option (Cons c) (undouble (d # ds)))"

definition unescapeCell :: "jsstring \<Rightarrow> jsstring option" where
  "unescapeCell cell =
     (case cell of
        [] \<Rightarrow> None
      | q # rest \<Rightarrow>
          if q = 34 \<and> rest \<noteq> [] \<and> last rest = 34 then undouble (butlast rest) else None)"

lemma undouble_doubled:
  "undouble (concat (map (\<lambda>c. if c = 34 then [34, 34] else [c]) v)) = Some v"
proof (induction v)
  case Nil
  then show ?case by simp
next
  case (Cons c v)
  show ?case
  proof (cases "c = 34")
    case True
    with Cons show ?thesis by simp
  next
    case False
    with Cons show ?thesis
      by (cases "concat (map (\<lambda>c. if c = 34 then [34, 34] else [c]) v)") simp_all
  qed
qed

lemma unescapeCell_escapeCell: "unescapeCell (escapeCell v) = Some v"
  by (simp add: unescapeCell_def escapeCell_def butlast_append undouble_doubled)

lemma getProp_assign: "getProp (assign r k v) k = Some v"
  by (induction r) (auto simp: getProp_def)

lemma escapeCell_ERROR: "escapeCell (str ''\"ERROR\"'') = str ''\"\"\"ERROR\"\"\"''"
  by (simp add: escapeCell_def str_def)

lemma CSV_URL_value:
  "CSV_URL = str ''https://docs.google.com/spreadsheets/d/'' @
     str ''1xU0f6p24RBIfxQXAGXT0SDF1HG0urREDjYJKlJTy7WY/gviz/tq?tqx=out:csv&gid=0''"
  by (simp add: CSV_URL_def replace_def search_def matchAt_def editRe_def lits_def
      SHEET_EDIT_URL_def str_def upt_rec)

text \<open>
  The scenario of the specification: a table with the URL of a page that answers with
  status 404 and the URL of a host that cannot be resolved. The sheet's edit page cannot
  be fetched either.
\<close>

definition gone :: jsstring where "gone = str ''http://gone.example/''"
definition down :: jsstring where "down = str ''http://down.example/''"

definition scenarioWorld :: world where
  "scenarioWorld =
     \<lparr>fetch = (\<lambda>t url ua.
        if url = CSV_URL then
          Inr \<lparr>res_url = CSV_URL, res_status = 200,
               res_text = Inr (str ''website'' @ [10] @ gone @ [10] @ down)\<rparr>
        else if url = gone then
          Inr \<lparr>res_url = gone, res_status = 404, res_text = Inr (str ''Not Found'')\<rparr>
        else Inl (Error ''getaddrinfo ENOTFOUND'')),
      newPage = (\<lambda>t. Inr ()), setUserAgent = (\<lambda>t ua. Inr ()),
      goto = (\<lambda>t url. Inr ()), content = (\<lambda>t. Inr (str ''Not Found'')),
      closePage = (\<lambda>t. Inr ()), launch = (\<lambda>t. Inr ()), closeBrowser = (\<lambda>t. Inr ()),
      writeFileSync = (\<lambda>t name data. Inr ()), stack = 1000, load = textPage,
      parse = (\<lambda>s. Inr [[(str ''website'', gone)], [(str ''website'', down)]])\<rparr>"

lemma urls_differ:
  "gone \<noteq> CSV_URL" "down \<noteq> CSV_URL" "down \<noteq> gone" "SHEET_EDIT_URL \<noteq> CSV_URL"
  "SHEET_EDIT_URL \<noteq> gone" "gone \<noteq> []" "down \<noteq> []"
  by (simp_all add: CSV_URL_value SHEET_EDIT_URL_def gone_def down_def str_def)

lemma fetch_gone:
  "fetch scenarioWorld t gone ua =
     Inr \<lparr>res_url = gone, res_status = 404, res_text = Inr (str ''Not Found'')\<rparr>"
  by (simp add: scenarioWorld_def urls_differ)

lemma fetch_down: "fetch scenarioWorld t down ua = Inl (Error ''getaddrinfo ENOTFOUND'')"
  by (simp add: scenarioWorld_def urls_differ)

lemma fetch_title: "fetch scenarioWorld t SHEET_EDIT_URL ua = Inl (Error ''getaddrinfo ENOTFOUND'')"
  by (simp add: scenarioWorld_def urls_differ)

lemma fetch_csv:
  "fetch scenarioWorld t CSV_URL ua =
     Inr \<lparr>res_url = CSV_URL, res_status = 200,
          res_text = Inr (str ''website'' @ [10] @ gone @ [10] @ down)\<rparr>"
  by (simp add: scenarioWorld_def)

lemma scrape_not_found: "scrapeDocument 1000 (textPage (str ''Not Found'')) = Inr []"
  by code_simp

lemma scenario_rest:
  "newPage scenarioWorld t = Inr ()" "setUserAgent scenarioWorld t ua = Inr ()"
  "goto scenarioWorld t url = Inr ()" "content scenarioWorld t = Inr (str ''Not Found'')"
  "closePage scenarioWorld t = Inr ()" "launch scenarioWorld t = Inr ()"
  "closeBrowser scenarioWorld t = Inr ()" "writeFileSync scenarioWorld t name data = Inr ()"
  "load scenarioWorld = textPage" "stack scenarioWorld = 1000"
  "parse scenarioWorld s = Inr [[(str ''website'', gone)], [(str ''website'', down)]]"
  by (simp_all add: scenarioWorld_def)

lemma scrapeEmails_gone:
  "scrapeEmails scenarioWorld gone t =
     (Inr [], t @ [Fetch gone BROWSER_UA True, LogRendering gone, NewPage True,
                   SetUserAgent BROWSER_UA True, Goto gone True, Content True, ClosePage True])"
  by (simp add: scrapeEmails_def render_def renderTry_def fetch_gone scenario_rest
      basicScrape_def scrape_not_found Let_def)

lemma scrapeEmails_down:
  "scrapeEmails scenarioWorld down t =
     (Inl (Error ''getaddrinfo ENOTFOUND''), t @ [Fetch down BROWSER_UA False])"
  by (simp add: scrapeEmails_def fetch_down)

lemma website_emails: "str ''website'' \<noteq> str ''emails''"
  by (simp add: str_def)

lemma scrapeRecords_scenario:
  "scrapeRecords scenarioWorld [[(str ''website'', gone)], [(str ''website'', down)]] t =
     ([[(str ''website'', gone), (str ''emails'', str ''[]'')],
       [(str ''website'', down), (str ''emails'', str ''\"ERROR\"'')]],
      t @ [Fetch gone BROWSER_UA True, LogRendering gone, NewPage True,
           SetUserAgent BROWSER_UA True, Goto gone True, Content True, ClosePage True,
           LogScraped gone 0,
           Fetch down BROWSER_UA False, ErrorFailed down (Error ''getaddrinfo ENOTFOUND'')])"
  by (simp add: scrapeRecord_def getProp_def scrapeEmails_gone scrapeEmails_down urls_differ
      website_emails JSON_stringify_def) (simp add: str_def)

lemma lines_scenario:
  "join [10] (lines [[(str ''website'', gone), (str ''emails'', str ''[]'')],
       [(str ''website'', down), (str ''emails'', str ''\"ERROR\"'')]])
   = str ''website,emails,emails'' @ [10] @
     str ''\"http://gone.example/\",\"[]\",\"[]\"'' @ [10] @
     str ''\"http://down.example/\",\"\"\"ERROR\"\"\",\"\"\"ERROR\"\"\"''"
  by (simp add: lines_def finalHeaders_def cells_def escapeCell_def getProp_def gone_def down_def
      str_def)

text \<open>
  Claim C1 as stated fails. The run of the scenario writes, for the record whose URL
  cannot be resolved, the cell \<^verbatim>\<open>"""ERROR"""\<close>; read back, its content is the seven
  code units \<^verbatim>\<open>"ERROR"\<close>, not the five of \<open>ERROR\<close>. (The header of the table names
  the column twice, because the headers are read from the first record after the loop
  has added the property to it.)
\<close>

theorem error_cell_counterexample:
  "fst (main scenarioWorld []) =
     Written (str ''output.csv'')
       (str ''website,emails,emails'' @ [10] @
        str ''\"http://gone.example/\",\"[]\",\"[]\"'' @ [10] @
        str ''\"http://down.example/\",\"\"\"ERROR\"\"\",\"\"\"ERROR\"\"\"'')
   \<and> unescapeCell (str ''\"\"\"ERROR\"\"\"'') = Some (str ''\"ERROR\"'')
   \<and> str ''\"ERROR\"'' \<noteq> str ''ERROR''"
proof -
  have "fst (main scenarioWorld []) =
     Written (str ''output.csv'')
       (join [10] (lines [[(str ''website'', gone), (str ''emails'', str ''[]'')],
       [(str ''website'', down), (str ''emails'', str ''\"ERROR\"'')]]))"
    by (simp add: main_def fetch_csv scenario_rest outFilename_def fetch_title
        scrapeAndWrite_def scrapeRecords_scenario Let_def del: scrapeRecords.simps)
  moreover have "unescapeCell (str ''\"\"\"ERROR\"\"\"'') = Some (str ''\"ERROR\"'')"
    using unescapeCell_escapeCell [of "str ''\"ERROR\"''"] by (simp only: escapeCell_ERROR)
  moreover have "str ''\"ERROR\"'' \<noteq> str ''ERROR''" by (simp add: str_def)
  ultimately show ?thesis by (simp only: lines_scenario simp_thms)
qed

text \<open>
  Claim C1 as amended. For every record with a URL for which \<open>scrapeEmails\<close> fails,
  the property \<open>emails\<close> of the record is the text \<^verbatim>\<open>"ERROR"\<close>, the word in double
  quotes as \<open>JSON.stringify\<close> would write it, so the cell written for the column is
  \<^verbatim>\<open>"""ERROR"""\<close>, and the content of that cell is \<^verbatim>\<open>"ERROR"\<close>.
\<close>

theorem failed_record_cell:
  assumes "getProp r (str ''website'') = Some url" and "url \<noteq> []"
    and "fst (scrapeEmails w url t) = Inl err"
  shows "getProp (fst (scrapeRecord w r t)) (str ''emails'') = Some (str ''\"ERROR\"'') \<and>
         cells [str ''emails''] (fst (scrapeRecord w r t)) = [str ''\"\"\"ERROR\"\"\"''] \<and>
         unescapeCell (str ''\"\"\"ERROR\"\"\"'') = Some (str ''\"ERROR\"'')"
proof -
  from assms have "fst (scrapeRecord w r t) = assign r (str ''emails'') (str ''\"ERROR\"'')"
    by (auto simp: scrapeRecord_def split: prod.splits sum.splits)
  moreover have "unescapeCell (str ''\"\"\"ERROR\"\"\"'') = Some (str ''\"ERROR\"'')"
    using unescapeCell_escapeCell [of "str ''\"ERROR\"''"] by (simp only: escapeCell_ERROR)
  ultimately show ?thesis
    by (simp add: getProp_assign cells_def escapeCell_ERROR)
qed

theorem failed_record_cell_witness:
  "getProp (fst (scrapeRecord scenarioWorld [(str ''website'', down)] [])) (str ''emails'')
     = Some (str ''\"ERROR\"'') \<and>
   cells [str ''emails''] (fst (scrapeRecord scenarioWorld [(str ''website'', down)] []))
     = [str ''\"\"\"ERROR\"\"\"'']"
proof -
  have 1: "getProp [(str ''website'', down)] (str ''website'') = Some down"
    by (simp add: getProp_def)
  have 2: "fst (scrapeEmails scenarioWorld down []) = Inl (Error ''getaddrinfo ENOTFOUND'')"
    by (simp add: scrapeEmails_down)
  from failed_record_cell [OF 1 urls_differ(7) 2] show ?thesis by simp
qed

text \<open>
  Claim C2 as stated fails twice in the scenario. The request for the first URL
  resolves with status 404: \<open>fetch\<close> rejects on no status and the source reads none,
  so the body is scraped, the fallback renders the page, and the record gets \<open>[]\<close>.
  The request for the second URL rejects: the record gets \<^verbatim>\<open>"ERROR"\<close>, in double
  quotes, not \<open>ERROR\<close>.
\<close>

theorem fetch_failure_counterexample:
  "fetch scenarioWorld [] gone BROWSER_UA =
     Inr \<lparr>res_url = gone, res_status = 404, res_text = Inr (str ''Not Found'')\<rparr>
   \<and> fetch scenarioWorld [Fetch gone BROWSER_UA True, LogRendering gone, NewPage True,
           SetUserAgent BROWSER_UA True, Goto gone True, Content True, ClosePage True,
           LogScraped gone 0] down BROWSER_UA = Inl (Error ''getaddrinfo ENOTFOUND'')
   \<and> scrapeRecords scenarioWorld [[(str ''website'', gone)], [(str ''website'', down)]] [] =
     ([[(str ''website'', gone), (str ''emails'', str ''[]'')],
       [(str ''website'', down), (str ''emails'', str ''\"ERROR\"'')]],
      [Fetch gone BROWSER_UA True, LogRendering gone, NewPage True,
       SetUserAgent BROWSER_UA True, Goto gone True, Content True, ClosePage True,
       LogScraped gone 0,
       Fetch down BROWSER_UA False, ErrorFailed down (Error ''getaddrinfo ENOTFOUND'')])
   \<and> str ''[]'' \<noteq> str ''ERROR'' \<and> str ''\"ERROR\"'' \<noteq> str ''ERROR''"
  using scrapeRecords_scenario [of "[]"]
  by (simp add: fetch_gone fetch_down str_def del: scrapeRecords.simps)

text \<open>
  Claim C2 as amended. When the static request for the URL of a record rejects,
  \<open>scrapeEmails\<close> fails with that exception after the one event of the request, so no
  page is opened; the property \<open>emails\<close> of the record becomes \<^verbatim>\<open>"ERROR"\<close>, in
  double quotes; and the loop goes on with the remaining records, from the trace that
  holds the request and the logged error.
\<close>

theorem fetch_failure_recorded:
  assumes "getProp r (str ''website'') = Some url" and "url \<noteq> []"
    and "fetch w t url BROWSER_UA = Inl err"
  shows "scrapeEmails w url t = (Inl err, t @ [Fetch url BROWSER_UA False]) \<and>
         scrapeRecords w (r # rs) t =
           (assign r (str ''emails'') (str ''\"ERROR\"'')
              # fst (scrapeRecords w rs (t @ [Fetch url BROWSER_UA False, ErrorFailed url err])),
            snd (scrapeRecords w rs (t @ [Fetch url BROWSER_UA False, ErrorFailed url err])))"
  using assms by (simp add: scrapeEmails_def scrapeRecord_def split: prod.splits)

theorem fetch_failure_recorded_witness:
  "scrapeEmails scenarioWorld down [] =
     (Inl (Error ''getaddrinfo ENOTFOUND''), [Fetch down BROWSER_UA False]) \<and>
   scrapeRecords scenarioWorld [[(str ''website'', down)], [(str ''website'', gone)]] [] =
     ([[(str ''website'', down), (str ''emails'', str ''\"ERROR\"'')],
       [(str ''website'', gone), (str ''emails'', str ''[]'')]],
      [Fetch down BROWSER_UA False, ErrorFailed down (Error ''getaddrinfo ENOTFOUND''),
       Fetch gone BROWSER_UA True, LogRendering gone, NewPage True,
       SetUserAgent BROWSER_UA True, Goto gone True, Content True, ClosePage True,
       LogScraped gone 0])"
proof -
  have rest: "scrapeRecords scenarioWorld [[(str ''website'', gone)]] t =
     ([[(str ''website'', gone), (str ''emails'', str ''[]'')]],
      t @ [Fetch gone BROWSER_UA True, LogRendering gone, NewPage True,
           SetUserAgent BROWSER_UA True, Goto gone True, Content True, ClosePage True,
           LogScraped gone 0])" for t
    by (simp add: scrapeRecord_def getProp_def scrapeEmails_gone urls_differ
        website_emails JSON_stringify_def) (simp add: str_def)
  have w: "getProp [(str ''website'', down)] (str ''website'') = Some down"
    by (simp add: getProp_def)
  from fetch_failure_recorded [OF w urls_differ(7) fetch_down, of "[]" "[[(str ''website'', gone)]]"]
  show ?thesis
    by (simp add: rest website_emails del: scrapeRecords.simps)
qed

section \<open>Properties of the output file name\<close>

subsection \<open>The title\<close>

lemma titleRe_run:
  "run titleRe s i =
     (if take 7 (drop i s) = str ''<title>''
      then run (Rep 1 (\<lambda>c. c \<noteq> 60) # map Lit (str ''</title>'') @ []) s (i + 7) else [])"
proof -
  have "titleRe = map Lit (str ''<title>'') @ (Rep 1 (\<lambda>c. c \<noteq> 60) # map Lit (str ''</title>'') @ [])"
    by (simp add: titleRe_def lits_str)
  then have "run titleRe s i
      = run (map Lit (str ''<title>'') @ (Rep 1 (\<lambda>c. c \<noteq> 60) # map Lit (str ''</title>'') @ [])) s i"
    by (simp only:)
  moreover have "length (str ''<title>'') = 7" by (simp add: str_def)
  ultimately show ?thesis by (simp only: run_literal)
qed

lemma titleMatch_none:
  assumes "\<forall>k. take 7 (drop k htmlDoc) \<noteq> str ''<title>''"
  shows "titleMatch htmlDoc = None"
proof -
  from assms have "\<forall>k\<le>length htmlDoc. matchAt titleRe htmlDoc k = None"
    by (simp add: matchAt_None titleRe_run)
  from search_None [OF this] show ?thesis by (simp add: titleMatch_def)
qed

lemma titleMatch_found:
  assumes doc: "htmlDoc = pre @ str ''<title>'' @ title @ str ''</title>'' @ post"
    and first: "\<forall>k<length pre. take 7 (drop k htmlDoc) \<noteq> str ''<title>''"
    and nonempty: "title \<noteq> []" and plain: "60 \<notin> set title"
  shows "titleMatch htmlDoc = Some title"
proof -
  let ?i = "length pre" and ?n = "length title"
  let ?other = "\<lambda>c::nat. c \<noteq> 60"
  have l7: "length (str ''<title>'') = 7" and l8: "length (str ''</title>'') = 8"
    by (simp_all add: str_def)
  have d0: "drop ?i htmlDoc = str ''<title>'' @ title @ str ''</title>'' @ post"
    by (simp add: doc)
  have d7: "drop (?i + 7) htmlDoc = title @ str ''</title>'' @ post"
    using l7 by (simp add: doc)
  have dn: "drop (?i + 7 + ?n) htmlDoc = str ''</title>'' @ post"
    using l7 by (simp add: doc)
  have "takeWhile ?other (title @ str ''</title>'' @ post) = title"
    using plain by (intro takeWhile_prefix) (auto simp: str_def)
  with d7 have run: "length (takeWhile ?other (drop (?i + 7) htmlDoc)) = ?n" by simp
  have "run (map Lit (str ''</title>'') @ []) htmlDoc (?i + 7 + ?n) = [?i + 7 + ?n + 8]"
    using l8 dn by (simp only: run_literal) simp
  with run nonempty
  obtain js where "run (Rep 1 ?other # map Lit (str ''</title>'') @ []) htmlDoc (?i + 7)
      = (?i + 7 + ?n + 8) # js"
    using run_Rep_first [of 1 ?other "?i + 7" htmlDoc "map Lit (str ''</title>'') @ []"
        "?i + 7 + ?n + 8" "[]"]
    by (auto simp: Suc_le_eq)
  moreover have "take 7 (drop ?i htmlDoc) = str ''<title>''"
    using l7 d0 by simp
  ultimately have "run titleRe htmlDoc ?i = (?i + 7 + ?n + 8) # js"
    by (simp only: titleRe_run if_True simp_thms)
  then have m: "matchAt titleRe htmlDoc ?i = Some (?i + 7 + ?n + 8)"
    by (rule matchAt_first)
  from first have "\<forall>k<?i. matchAt titleRe htmlDoc k = None"
    by (simp add: matchAt_None titleRe_run)
  with m have "search titleRe htmlDoc 0 = Some (?i, ?i + 7 + ?n + 8)"
    by (intro search_leftmost) (simp_all add: doc)
  then have "titleMatch htmlDoc = Some (take ?n (drop (?i + 7) htmlDoc))"
    by (simp add: titleMatch_def substring_def)
  with d7 show ?thesis by simp
qed


subsection \<open>The suffix\<close>

lemma suffixRe_unfold:
  "suffixRe = Rep 0 isWhiteSpace # Lit 45 # Rep 0 isWhiteSpace
              # (map Lit (str ''Google Sheets'') @ [EndOfInput])"
  by (simp add: suffixRe_def lits_str)

lemma hyphen_no_space: "\<not> isWhiteSpace 45"
  by (simp add: isWhiteSpace_def)

lemma sheets_nonempty: "str ''Google Sheets'' \<noteq> []" "length (str ''Google Sheets'') = 13"
  "hd (str ''Google Sheets'') = 71" "\<not> isWhiteSpace 71" "isWhiteSpace 32"
  by (simp_all add: str_def isWhiteSpace_def)

text \<open>What a match of the suffix pattern at position \<open>k\<close> says about the string.\<close>

lemma suffixRe_match:
  assumes "j \<in> set (run suffixRe s k)"
  shows "\<exists>m. k + length (takeWhile isWhiteSpace (drop k s)) < length s \<and>
             s ! (k + length (takeWhile isWhiteSpace (drop k s))) = 45 \<and>
             m \<le> length (takeWhile isWhiteSpace
                    (drop (Suc (k + length (takeWhile isWhiteSpace (drop k s)))) s)) \<and>
             drop (Suc (k + length (takeWhile isWhiteSpace (drop k s))) + m) s
               = str ''Google Sheets''"
proof -
  let ?n = "length (takeWhile isWhiteSpace (drop k s))"
  let ?rest = "map Lit (str ''Google Sheets'') @ [EndOfInput]"
  from assms have "j \<in> set (run (Rep 0 isWhiteSpace # Lit 45 # Rep 0 isWhiteSpace # ?rest) s k)"
    by (simp only: suffixRe_unfold)
  from run_Rep_Lit [OF this hyphen_no_space]
  have h: "k + ?n < length s" "s ! (k + ?n) = 45"
    and r: "j \<in> set (run (Rep 0 isWhiteSpace # ?rest) s (Suc (k + ?n)))"
    by simp_all
  from r obtain m where m: "m \<le> length (takeWhile isWhiteSpace (drop (Suc (k + ?n)) s))"
    and e: "j \<in> set (run ?rest s (Suc (k + ?n) + m))"
    by (auto simp: run_Rep less_Suc_eq_le simp del: upt_Suc run.simps)
  from e have "drop (Suc (k + ?n) + m) s = str ''Google Sheets''"
    by (simp only: run_literal_end [OF sheets_nonempty(1)] split: if_splits) simp
  with h m show ?thesis by blast
qed

text \<open>
  A title ends with the suffix when it is some text, a hyphen, white space (none
  included) and \<open>Google Sheets\<close>.
\<close>

lemma take_takeWhile_space:
  assumes "m \<le> length (takeWhile P xs)"
  shows "\<forall>c\<in>set (take m xs). P c"
proof -
  have "xs = takeWhile P xs @ dropWhile P xs" by simp
  then have "take m xs = take m (takeWhile P xs @ dropWhile P xs)" by simp
  also have "\<dots> = take m (takeWhile P xs)"
    using assms by (simp del: takeWhile_dropWhile_id)
  finally have "set (take m xs) \<subseteq> set (takeWhile P xs)" by (simp add: set_take_subset)
  then show ?thesis by (auto dest: set_takeWhileD)
qed

lemma suffixRe_shape:
  assumes "j \<in> set (run suffixRe s k)"
  shows "\<exists>name gap. s = name @ [45] @ gap @ str ''Google Sheets'' \<and>
                     (\<forall>c\<in>set gap. isWhiteSpace c)"
proof -
  define h where "h = k + length (takeWhile isWhiteSpace (drop k s))"
  from suffixRe_match [OF assms] obtain m where
    h: "h < length s" "s ! h = 45"
    and m: "m \<le> length (takeWhile isWhiteSpace (drop (Suc h) s))"
    and g: "drop (Suc h + m) s = str ''Google Sheets''"
    unfolding h_def by blast
  have "s = take h s @ drop h s" by simp
  also have "drop h s = s ! h # drop (Suc h) s" using h(1) by (rule Cons_nth_drop_Suc [symmetric])
  also have "drop (Suc h) s = take m (drop (Suc h) s) @ drop m (drop (Suc h) s)"
    by (simp only: append_take_drop_id)
  also have "drop m (drop (Suc h) s) = str ''Google Sheets''" using g by (simp add: add.commute)
  finally have "s = take h s @ [45] @ take m (drop (Suc h) s) @ str ''Google Sheets''"
    using h(2) by simp
  moreover from m have "\<forall>c\<in>set (take m (drop (Suc h) s)). isWhiteSpace c"
    by (rule take_takeWhile_space)
  ultimately show ?thesis by blast
qed

text \<open>\<open>String.prototype.trimEnd\<close>\<close>

definition trimEnd :: "jsstring \<Rightarrow> jsstring" where
  "trimEnd s = rev (dropWhile isWhiteSpace (rev s))"

lemma trimEnd_split: "s = trimEnd s @ rev (takeWhile isWhiteSpace (rev s))"
  unfolding trimEnd_def by (metis rev_append rev_rev_ident takeWhile_dropWhile_id)

lemma trimEnd_last: "trimEnd s \<noteq> [] \<Longrightarrow> \<not> isWhiteSpace (last (trimEnd s))"
  by (simp add: trimEnd_def last_rev hd_dropWhile)

lemma trimEnd_id: "name = [] \<or> \<not> isWhiteSpace (last name) \<Longrightarrow> trimEnd name = name"
  by (cases name rule: rev_cases) (auto simp: trimEnd_def)

lemma replace_without_suffix:
  assumes "\<forall>name gap. title = name @ [45] @ gap @ str ''Google Sheets''
             \<longrightarrow> (\<exists>c\<in>set gap. \<not> isWhiteSpace c)"
  shows "replace suffixRe title r = title"
proof -
  have "run suffixRe title k = []" for k
  proof (rule ccontr)
    assume "run suffixRe title k \<noteq> []"
    then obtain j where "j \<in> set (run suffixRe title k)" by (cases "run suffixRe title k") auto
    from suffixRe_shape [OF this] assms show False by blast
  qed
  then have "\<forall>k\<le>length title. matchAt suffixRe title k = None"
    by (simp add: matchAt_None)
  from search_None [OF this] show ?thesis by (simp add: replace_def)
qed

lemma replace_suffix:
  assumes gap: "\<forall>c\<in>set gap. isWhiteSpace c"
  shows "replace suffixRe (name @ [45] @ gap @ str ''Google Sheets'') [] = trimEnd name"
proof -
  define G where "G = str ''Google Sheets''"
  define q where "q = trimEnd name"
  define w where "w = rev (takeWhile isWhiteSpace (rev name))"
  define s where "s = q @ w @ [45] @ gap @ G"
  define N where "N = length q + length w"
  let ?rest = "map Lit G @ [EndOfInput]"
  have G: "G \<noteq> []" "length G = 13" "hd G = 71"
    by (simp_all add: G_def sheets_nonempty)
  have name: "name = q @ w" unfolding q_def w_def by (rule trimEnd_split)
  have s: "name @ [45] @ gap @ str ''Google Sheets'' = s"
    by (simp add: name s_def G_def)
  have w: "\<forall>x\<in>set w. isWhiteSpace x" unfolding w_def by (auto dest: set_takeWhileD)
  have q: "q \<noteq> [] \<Longrightarrow> \<not> isWhiteSpace (last q)" unfolding q_def by (rule trimEnd_last)
  have len: "length s = N + length gap + 14" by (simp add: s_def N_def G)
  have s1: "s ! N = 45"
    by (simp add: s_def N_def nth_append)
  have sg: "s ! i = gap ! (i - N - 1)" if "N < i" and "i \<le> N + length gap" for i
  proof -
    have "s = (q @ w @ [45]) @ (gap @ G)" by (simp add: s_def)
    moreover have "length (q @ w @ [45]) = N + 1" by (simp add: N_def)
    ultimately have "s ! i = (gap @ G) ! (i - (N + 1))"
      using that(1) by (simp only: nth_append) simp
    moreover from that have "i - (N + 1) < length gap" by linarith
    ultimately show ?thesis by (simp add: nth_append)
  qed
  have d2: "drop (N + 1 + length gap) s = G" by (simp add: s_def N_def)
  have d1: "drop (N + 1) s = gap @ G" by (simp add: s_def N_def)
  have dq: "drop (length q) s = w @ (45 # gap @ G)" by (simp add: s_def)
  \<comment> \<open>the match at the end of the trimmed name\<close>
  have n2: "length (takeWhile isWhiteSpace (drop (N + 1) s)) = length gap"
  proof -
    have "takeWhile isWhiteSpace (gap @ G) = gap"
      using gap by (intro takeWhile_prefix) (simp_all add: G sheets_nonempty)
    with d1 show ?thesis by simp
  qed
  have "run ?rest s (N + 1 + length gap) = [length s]"
    using d2 by (simp add: run_literal_end [OF G(1)])
  with n2 have "run ?rest s (N + 1 + length (takeWhile isWhiteSpace (drop (N + 1) s))) = [length s]"
    by simp
  from run_Rep_first [OF le0 this]
  obtain js1 where "run (Rep 0 isWhiteSpace # ?rest) s (N + 1) = length s # js1"
    by blast
  moreover have "N < length s \<and> s ! N = 45" using s1 len by simp
  ultimately have hy: "run (Lit 45 # Rep 0 isWhiteSpace # ?rest) s N = length s # js1"
    by (simp only: run_Lit) simp
  have "takeWhile isWhiteSpace (w @ (45 # gap @ G)) = w"
    using w by (intro takeWhile_prefix) (auto simp: hyphen_no_space)
  with dq have "length (takeWhile isWhiteSpace (drop (length q) s)) = length w"
    by simp
  with hy have "run (Lit 45 # Rep 0 isWhiteSpace # ?rest) s
      (length q + length (takeWhile isWhiteSpace (drop (length q) s))) = length s # js1"
    by (simp only: N_def)
  from run_Rep_first [OF le0 this]
  obtain js2 where
    "run (Rep 0 isWhiteSpace # Lit 45 # Rep 0 isWhiteSpace # ?rest) s (length q) = length s # js2"
    by blast
  then have "run suffixRe s (length q) = length s # js2"
    by (simp only: suffixRe_unfold G_def)
  then have A: "matchAt suffixRe s (length q) = Some (length s)"
    by (rule matchAt_first)
  \<comment> \<open>no match before\<close>
  have B: "\<forall>k<length q. matchAt suffixRe s k = None"
  proof (intro allI impI)
    fix k
    assume k: "k < length q"
    show "matchAt suffixRe s k = None"
    proof (rule ccontr)
      assume "matchAt suffixRe s k \<noteq> None"
      then have "run suffixRe s k \<noteq> []" by (simp add: matchAt_None)
      then obtain j where "j \<in> set (run suffixRe s k)" by (cases "run suffixRe s k") auto
      from suffixRe_match [OF this] obtain m where
        hy: "s ! (k + length (takeWhile isWhiteSpace (drop k s))) = 45"
        and m: "m \<le> length (takeWhile isWhiteSpace
                   (drop (Suc (k + length (takeWhile isWhiteSpace (drop k s)))) s))"
        and g: "drop (Suc (k + length (takeWhile isWhiteSpace (drop k s))) + m) s = G"
        unfolding G_def by blast
      define n where "n = length (takeWhile isWhiteSpace (drop k s))"
      from g have "length s - (Suc (k + n) + m) = 13"
        unfolding n_def by (metis length_drop G(2))
      with len have sum: "k + n + m = N + length gap" by simp
      have kn: "k + n = N"
      proof (rule ccontr)
        assume "k + n \<noteq> N"
        then consider "k + n < N" | "N < k + n" by linarith
        then show False
        proof cases
          case 1
          with sum m have "N - (k + n) - 1 < length (takeWhile isWhiteSpace (drop (Suc (k + n)) s))"
            by (simp add: n_def)
          from takeWhile_run [OF this] have "isWhiteSpace (s ! (Suc (k + n) + (N - (k + n) - 1)))" .
          moreover from 1 have "Suc (k + n) + (N - (k + n) - 1) = N" by simp
          ultimately show False using s1 hyphen_no_space by simp
        next
          case 2
          with sum have i: "k + n - N - 1 < length gap" and "k + n \<le> N + length gap"
            by simp_all
          with 2 have "s ! (k + n) = gap ! (k + n - N - 1)" by (intro sg)
          with i gap have "isWhiteSpace (s ! (k + n))" by simp
          with hy hyphen_no_space show False by (simp add: n_def)
        qed
      qed
      from k kn have "length q - 1 - k < n" by (simp add: N_def)
      then have "isWhiteSpace (s ! (k + (length q - 1 - k)))"
        unfolding n_def by (rule takeWhile_run)
      moreover from k have "k + (length q - 1 - k) = length q - 1" by simp
      moreover have "s ! (length q - 1) = last q"
      proof -
        from k have ne: "q \<noteq> []" by auto
        then have "length q - 1 < length q" by simp
        then have "s ! (length q - 1) = q ! (length q - 1)"
          unfolding s_def by (simp only: nth_append if_True)
        with ne show ?thesis by (simp add: last_conv_nth)
      qed
      moreover from k have "\<not> isWhiteSpace (last q)" by (intro q) auto
      ultimately show False by simp
    qed
  qed
  have "length q \<le> length s" by (simp add: s_def)
  from search_leftmost [OF this A B] have "search suffixRe s 0 = Some (length q, length s)" .
  then have "replace suffixRe s [] = take (length q) s" by (simp add: replace_def)
  also have "\<dots> = q" by (simp add: s_def)
  finally show ?thesis by (simp only: s q_def)
qed


subsection \<open>The name\<close>

text \<open>A world in which every request resolves with the same body.\<close>

definition titleWorld :: "jsstring \<Rightarrow> world" where
  "titleWorld doc =
     demoWorld (\<lambda>u. Inr \<lparr>res_url = u, res_status = 200, res_text = Inr doc\<rparr>)
       (\<lambda>u. Inr ()) [] textPage"

lemma fetch_titleWorld:
  "fetch (titleWorld doc) t url ua = Inr \<lparr>res_url = url, res_status = 200, res_text = Inr doc\<rparr>"
  by (simp add: titleWorld_def demoWorld_def)

lemma short_document:
  assumes "length doc < 7"
  shows "\<forall>k. take 7 (drop k doc) \<noteq> str ''<title>''"
proof
  fix k
  have "length (take 7 (drop k doc)) < 7" using assms by simp
  moreover have "length (str ''<title>'') = 7" by (simp add: str_def)
  ultimately show "take 7 (drop k doc) \<noteq> str ''<title>''" by (metis less_irrefl)
qed

lemma head_before_title:
  assumes "doc = str ''<head>'' @ rest"
  shows "\<forall>k<length (str ''<head>''). take 7 (drop k doc) \<noteq> str ''<title>''"
proof (intro allI impI)
  fix k
  assume "k < length (str ''<head>'')"
  then consider "k = 0" | "k = 1" | "k = 2" | "k = 3" | "k = 4" | "k = 5"
    by (simp add: str_def) linarith
  then show "take 7 (drop k doc) \<noteq> str ''<title>''"
    by cases (simp_all add: assms str_def)
qed

lemma outFilename_title:
  assumes "fetch w t SHEET_EDIT_URL BROWSER_UA = Inr res" and "res_text res = Inr htmlDoc"
    and "titleMatch htmlDoc = Some title"
  shows "fst (outFilename w t) = replace suffixRe title [] @ str ''.csv''"
  using assms by (simp add: outFilename_def)

lemma bare_title:
  "\<forall>k<length ([]::jsstring). take 7 (drop k (doc::jsstring)) \<noteq> str ''<title>''"
  by simp

text \<open>
  Claim C10 as stated fails. What is removed from the title is a match of
  \<^verbatim>\<open>/\s*-\s*Google Sheets$/\<close>, not the text \<^verbatim>\<open> - Google Sheets\<close>. The title
  \<^verbatim>\<open>A  - Google Sheets\<close>, with two spaces before the hyphen, gives \<^verbatim>\<open>A.csv\<close>, where
  the title without the suffix \<^verbatim>\<open> - Google Sheets\<close> is \<open>A\<close> and a space; and the title
  \<^verbatim>\<open>A-Google Sheets\<close>, which does not end with \<^verbatim>\<open> - Google Sheets\<close>, gives
  \<^verbatim>\<open>A.csv\<close> as well.
\<close>

theorem outFilename_suffix_counterexample:
  "fst (outFilename (titleWorld (str ''<title>A  - Google Sheets</title>'')) []) = str ''A.csv''
   \<and> str ''A.csv'' \<noteq> str ''A .csv''
   \<and> fst (outFilename (titleWorld (str ''<title>A-Google Sheets</title>'')) []) = str ''A.csv''
   \<and> str ''A.csv'' \<noteq> str ''A-Google Sheets.csv''"
proof -
  let ?wide = "str ''<title>A  - Google Sheets</title>''"
  let ?tight = "str ''<title>A-Google Sheets</title>''"
  have "?wide = [] @ str ''<title>'' @ str ''A  - Google Sheets'' @ str ''</title>'' @ []"
    by (simp add: str_def)
  then have "titleMatch ?wide = Some (str ''A  - Google Sheets'')"
    using bare_title by (rule titleMatch_found) (simp_all add: str_def)
  then have "fst (outFilename (titleWorld ?wide) [])
      = replace suffixRe (str ''A  - Google Sheets'') [] @ str ''.csv''"
    by (intro outFilename_title [OF fetch_titleWorld]) simp_all
  moreover have "str ''A  - Google Sheets'' = str ''A  '' @ [45] @ [32] @ str ''Google Sheets''"
    by (simp add: str_def)
  moreover have "replace suffixRe (str ''A  '' @ [45] @ [32] @ str ''Google Sheets'') []
      = trimEnd (str ''A  '')"
    by (rule replace_suffix) (simp add: isWhiteSpace_def)
  moreover have "trimEnd (str ''A  '') = str ''A''"
    by (simp add: trimEnd_def isWhiteSpace_def str_def)
  ultimately have 1: "fst (outFilename (titleWorld ?wide) []) = str ''A.csv''"
    by (simp add: str_def)
  have "?tight = [] @ str ''<title>'' @ str ''A-Google Sheets'' @ str ''</title>'' @ []"
    by (simp add: str_def)
  then have "titleMatch ?tight = Some (str ''A-Google Sheets'')"
    using bare_title by (rule titleMatch_found) (simp_all add: str_def)
  then have "fst (outFilename (titleWorld ?tight) [])
      = replace suffixRe (str ''A-Google Sheets'') [] @ str ''.csv''"
    by (intro outFilename_title [OF fetch_titleWorld]) simp_all
  moreover have "str ''A-Google Sheets'' = str ''A'' @ [45] @ [] @ str ''Google Sheets''"
    by (simp add: str_def)
  moreover have "replace suffixRe (str ''A'' @ [45] @ [] @ str ''Google Sheets'') []
      = trimEnd (str ''A'')"
    by (rule replace_suffix) simp
  moreover have "trimEnd (str ''A'') = str ''A''"
    by (simp add: trimEnd_def isWhiteSpace_def str_def)
  ultimately have 2: "fst (outFilename (titleWorld ?tight) []) = str ''A.csv''"
    by (simp add: str_def)
  have "str ''A.csv'' \<noteq> str ''A .csv''" and "str ''A.csv'' \<noteq> str ''A-Google Sheets.csv''"
    by (simp_all add: str_def)
  with 1 2 show ?thesis by simp
qed

text \<open>
  Claim C10 as amended. When the sheet's edit page cannot be fetched, or its body cannot
  be read, or the body holds no \<^verbatim>\<open><title>\<close> at all, the name is \<open>output.csv\<close>. When
  the first \<^verbatim>\<open><title>\<close> of the body is followed by a non-empty text without \<open><\<close>
  and by \<^verbatim>\<open></title>\<close>, that text is the title. If the title is some text, a hyphen,
  white space (none included) and \<open>Google Sheets\<close> at its end, the name is the text
  before the hyphen without the white space at its end, followed by \<open>.csv\<close>; if the
  title has no such end, the name is the whole title followed by \<open>.csv\<close>. In every
  case the function returns a name and the run goes on with it to the launch of the
  browser; when the launch, the closing of the browser and the writing of the file do
  not throw, the table of the scraped records is written to the file of that name.
\<close>

theorem outFilename_from_title:
  "(fetch w t SHEET_EDIT_URL BROWSER_UA = Inl err \<or>
      fetch w t SHEET_EDIT_URL BROWSER_UA = Inr res \<and> res_text res = Inl err
    \<longrightarrow> fst (outFilename w t) = str ''output.csv'')
   \<and> (fetch w t SHEET_EDIT_URL BROWSER_UA = Inr res \<and> res_text res = Inr htmlDoc \<and>
        (\<forall>k. take 7 (drop k htmlDoc) \<noteq> str ''<title>'')
    \<longrightarrow> fst (outFilename w t) = str ''output.csv'')
   \<and> (fetch w t SHEET_EDIT_URL BROWSER_UA = Inr res \<and> res_text res = Inr htmlDoc \<and>
        htmlDoc = pre @ str ''<title>'' @ title @ str ''</title>'' @ post \<and>
        (\<forall>k<length pre. take 7 (drop k htmlDoc) \<noteq> str ''<title>'') \<and>
        title \<noteq> [] \<and> 60 \<notin> set title
    \<longrightarrow> (title = name @ [45] @ gap @ str ''Google Sheets'' \<and> (\<forall>c\<in>set gap. isWhiteSpace c)
           \<longrightarrow> fst (outFilename w t) = trimEnd name @ str ''.csv'')
      \<and> ((\<forall>name' gap'. title = name' @ [45] @ gap' @ str ''Google Sheets''
                       \<longrightarrow> (\<exists>c\<in>set gap'. \<not> isWhiteSpace c))
           \<longrightarrow> fst (outFilename w t) = title @ str ''.csv''))
   \<and> (fetch w t CSV_URL BROWSER_UA = Inr resp \<and> res_text resp = Inr body \<and>
        parse w (stripBOM body) = Inr records \<and> records \<noteq> []
    \<longrightarrow> main w t =
          scrapeAndWrite w records (fst (outFilename w (t @ [Fetch CSV_URL BROWSER_UA True])))
            (snd (outFilename w (t @ [Fetch CSV_URL BROWSER_UA True]))))
   \<and> (fetch w t CSV_URL BROWSER_UA = Inr resp \<and> res_text resp = Inr body \<and>
        parse w (stripBOM body) = Inr records \<and> records \<noteq> [] \<and>
        outFilename w (t @ [Fetch CSV_URL BROWSER_UA True]) = (fname, t2) \<and>
        launch w t2 = Inr () \<and>
        scrapeRecords w records (t2 @ [Launch True]) = (records', t3) \<and>
        closeBrowser w t3 = Inr () \<and>
        writeFileSync w (t3 @ [CloseBrowser True]) fname (join [10] (lines records')) = Inr ()
    \<longrightarrow> main w t =
          (Written fname (join [10] (lines records')),
           t3 @ [CloseBrowser True, WriteFile fname (join [10] (lines records')) True,
                 LogDone fname]))"
proof (intro conjI impI)
  assume "fetch w t SHEET_EDIT_URL BROWSER_UA = Inl err \<or>
      fetch w t SHEET_EDIT_URL BROWSER_UA = Inr res \<and> res_text res = Inl err"
  then show "fst (outFilename w t) = str ''output.csv''"
    by (auto simp: outFilename_def)
next
  assume "fetch w t SHEET_EDIT_URL BROWSER_UA = Inr res \<and> res_text res = Inr htmlDoc \<and>
        (\<forall>k. take 7 (drop k htmlDoc) \<noteq> str ''<title>'')"
  then show "fst (outFilename w t) = str ''output.csv''"
    by (simp add: outFilename_def titleMatch_none)
next
  assume a: "fetch w t SHEET_EDIT_URL BROWSER_UA = Inr res \<and> res_text res = Inr htmlDoc \<and>
        htmlDoc = pre @ str ''<title>'' @ title @ str ''</title>'' @ post \<and>
        (\<forall>k<length pre. take 7 (drop k htmlDoc) \<noteq> str ''<title>'') \<and>
        title \<noteq> [] \<and> 60 \<notin> set title"
  then have "htmlDoc = pre @ str ''<title>'' @ title @ str ''</title>'' @ post"
    and "\<forall>k<length pre. take 7 (drop k htmlDoc) \<noteq> str ''<title>''"
    and "title \<noteq> []" and "60 \<notin> set title"
    by blast+
  then have "titleMatch htmlDoc = Some title"
    by (rule titleMatch_found)
  with a have f: "fst (outFilename w t) = replace suffixRe title [] @ str ''.csv''"
    by (simp add: outFilename_title)
  {
    assume "title = name @ [45] @ gap @ str ''Google Sheets'' \<and> (\<forall>c\<in>set gap. isWhiteSpace c)"
    then have "replace suffixRe title [] = trimEnd name"
      using replace_suffix [where gap = gap and name = name] by blast
    with f show "fst (outFilename w t) = trimEnd name @ str ''.csv''"
      by (simp only:)
  next
    assume "\<forall>name' gap'. title = name' @ [45] @ gap' @ str ''Google Sheets''
                       \<longrightarrow> (\<exists>c\<in>set gap'. \<not> isWhiteSpace c)"
    then have "replace suffixRe title [] = title" by (rule replace_without_suffix)
    with f show "fst (outFilename w t) = title @ str ''.csv''"
      by (simp only:)
  }
next
  assume "fetch w t CSV_URL BROWSER_UA = Inr resp \<and> res_text resp = Inr body \<and>
        parse w (stripBOM body) = Inr records \<and> records \<noteq> []"
  then show "main w t =
          scrapeAndWrite w records (fst (outFilename w (t @ [Fetch CSV_URL BROWSER_UA True])))
            (snd (outFilename w (t @ [Fetch CSV_URL BROWSER_UA True])))"
    by (simp add: main_def split: prod.splits)
next
  assume "fetch w t CSV_URL BROWSER_UA = Inr resp \<and> res_text resp = Inr body \<and>
        parse w (stripBOM body) = Inr records \<and> records \<noteq> [] \<and>
        outFilename w (t @ [Fetch CSV_URL BROWSER_UA True]) = (fname, t2) \<and>
        launch w t2 = Inr () \<and>
        scrapeRecords w records (t2 @ [Launch True]) = (records', t3) \<and>
        closeBrowser w t3 = Inr () \<and>
        writeFileSync w (t3 @ [CloseBrowser True]) fname (join [10] (lines records')) = Inr ()"
  then show "main w t =
          (Written fname (join [10] (lines records')),
           t3 @ [CloseBrowser True, WriteFile fname (join [10] (lines records')) True,
                 LogDone fname])"
    by (simp add: main_def scrapeAndWrite_def Let_def del: scrapeRecords.simps)
qed

theorem outFilename_from_title_witness:
  "fst (outFilename scenarioWorld []) = str ''output.csv'' \<and>
   fst (outFilename (titleWorld (str ''Gone'')) []) = str ''output.csv'' \<and>
   fst (outFilename (titleWorld (str ''<head><title>Leads - Google Sheets</title></head>'')) [])
     = str ''Leads.csv'' \<and>
   fst (outFilename (titleWorld (str ''<head><title>Leads</title></head>'')) [])
     = str ''Leads.csv'' \<and>
   main scenarioWorld [] =
     (Written (str ''output.csv'')
        (join [10] (lines [[(str ''website'', gone), (str ''emails'', str ''[]'')],
                           [(str ''website'', down), (str ''emails'', str ''\"ERROR\"'')]])),
      [Fetch CSV_URL BROWSER_UA True, Fetch SHEET_EDIT_URL BROWSER_UA False,
       WarnTitle (str ''output.csv''), Launch True,
       Fetch gone BROWSER_UA True, LogRendering gone, NewPage True,
       SetUserAgent BROWSER_UA True, Goto gone True, Content True, ClosePage True,
       LogScraped gone 0,
       Fetch down BROWSER_UA False, ErrorFailed down (Error ''getaddrinfo ENOTFOUND''),
       CloseBrowser True,
       WriteFile (str ''output.csv'')
         (join [10] (lines [[(str ''website'', gone), (str ''emails'', str ''[]'')],
                            [(str ''website'', down), (str ''emails'', str ''\"ERROR\"'')]]))
         True,
       LogDone (str ''output.csv'')])"
proof -
  let ?res = "\<lambda>doc. \<lparr>res_url = SHEET_EDIT_URL, res_status = 200, res_text = Inr doc\<rparr>"
  let ?long = "str ''<head><title>Leads - Google Sheets</title></head>''"
  let ?plain = "str ''<head><title>Leads</title></head>''"
  let ?records = "[[(str ''website'', gone)], [(str ''website'', down)]]"
  let ?scraped = "[[(str ''website'', gone), (str ''emails'', str ''[]'')],
                   [(str ''website'', down), (str ''emails'', str ''\"ERROR\"'')]]"
  let ?tr = "[Fetch CSV_URL BROWSER_UA True, Fetch SHEET_EDIT_URL BROWSER_UA False,
              WarnTitle (str ''output.csv'')]"
  have 1: "fst (outFilename scenarioWorld []) = str ''output.csv''"
    using outFilename_from_title [of scenarioWorld "[]" "Error ''getaddrinfo ENOTFOUND''"]
      fetch_title [of "[]" BROWSER_UA]
    by blast
  have "\<forall>k. take 7 (drop k (str ''Gone'')) \<noteq> str ''<title>''"
    by (rule short_document) (simp add: str_def)
  with outFilename_from_title [of "titleWorld (str ''Gone'')" "[]" _ "?res (str ''Gone'')" "str ''Gone''"]
    fetch_titleWorld [of "str ''Gone''" "[]" SHEET_EDIT_URL BROWSER_UA]
  have 2: "fst (outFilename (titleWorld (str ''Gone'')) []) = str ''output.csv''"
    by simp
  have long: "?long = str ''<head>'' @ str ''<title>'' @ str ''Leads - Google Sheets''
      @ str ''</title>'' @ str ''</head>''"
    by (simp add: str_def)
  have "fst (outFilename (titleWorld ?long) []) = trimEnd (str ''Leads '') @ str ''.csv''"
    using outFilename_from_title [of "titleWorld ?long" "[]" _ "?res ?long" ?long "str ''<head>''"
        "str ''Leads - Google Sheets''" "str ''</head>''" "str ''Leads ''" "[32]"]
      fetch_titleWorld [of ?long "[]" SHEET_EDIT_URL BROWSER_UA]
      head_before_title [OF long] long
    by (simp add: str_def isWhiteSpace_def)
  then have 3: "fst (outFilename (titleWorld ?long) []) = str ''Leads.csv''"
    by (simp add: trimEnd_def isWhiteSpace_def str_def)
  have plain: "?plain = str ''<head>'' @ str ''<title>'' @ str ''Leads'' @ str ''</title>''
      @ str ''</head>''"
    by (simp add: str_def)
  have "\<forall>name' gap'. str ''Leads'' = name' @ [45] @ gap' @ str ''Google Sheets''
          \<longrightarrow> (\<exists>c\<in>set gap'. \<not> isWhiteSpace c)"
  proof (intro allI impI)
    fix name' gap'
    assume e: "str ''Leads'' = name' @ [45] @ gap' @ str ''Google Sheets''"
    have "length (str ''Leads'') < length (name' @ [45] @ gap' @ str ''Google Sheets'')"
      by (simp add: str_def)
    with e show "\<exists>c\<in>set gap'. \<not> isWhiteSpace c" by (metis less_irrefl)
  qed
  with outFilename_from_title [of "titleWorld ?plain" "[]" _ "?res ?plain" ?plain "str ''<head>''"
        "str ''Leads''" "str ''</head>''"]
      fetch_titleWorld [of ?plain "[]" SHEET_EDIT_URL BROWSER_UA]
      head_before_title [OF plain] plain
  have 4: "fst (outFilename (titleWorld ?plain) []) = str ''Leads.csv''"
    by (simp add: str_def)
  have name: "outFilename scenarioWorld ([] @ [Fetch CSV_URL BROWSER_UA True])
      = (str ''output.csv'', ?tr)"
    by (simp add: outFilename_def fetch_title)
  have "main scenarioWorld [] =
     (Written (str ''output.csv'') (join [10] (lines ?scraped)),
      ((?tr @ [Launch True])
         @ [Fetch gone BROWSER_UA True, LogRendering gone, NewPage True,
            SetUserAgent BROWSER_UA True, Goto gone True, Content True, ClosePage True,
            LogScraped gone 0,
            Fetch down BROWSER_UA False, ErrorFailed down (Error ''getaddrinfo ENOTFOUND'')])
        @ [CloseBrowser True, WriteFile (str ''output.csv'') (join [10] (lines ?scraped)) True,
           LogDone (str ''output.csv'')])"
    using outFilename_from_title [where w = scenarioWorld and t = "[]"
        and resp = "\<lparr>res_url = CSV_URL, res_status = 200,
          res_text = Inr (str ''website'' @ [10] @ gone @ [10] @ down)\<rparr>"
        and body = "str ''website'' @ [10] @ gone @ [10] @ down"
        and records = ?records and fname = "str ''output.csv''" and ?t2.0 = ?tr
        and records' = ?scraped
        and ?t3.0 = "(?tr @ [Launch True])
         @ [Fetch gone BROWSER_UA True, LogRendering gone, NewPage True,
            SetUserAgent BROWSER_UA True, Goto gone True, Content True, ClosePage True,
            LogScraped gone 0,
            Fetch down BROWSER_UA False, ErrorFailed down (Error ''getaddrinfo ENOTFOUND'')]",
        THEN conjunct2, THEN conjunct2, THEN conjunct2, THEN conjunct2]
      fetch_csv [of "[]" BROWSER_UA] scenario_rest name
      scrapeRecords_scenario [of "?tr @ [Launch True]"]
    by (simp del: scrapeRecords.simps)
  then have 5: "main scenarioWorld [] =
     (Written (str ''output.csv'') (join [10] (lines ?scraped)),
      [Fetch CSV_URL BROWSER_UA True, Fetch SHEET_EDIT_URL BROWSER_UA False,
       WarnTitle (str ''output.csv''), Launch True,
       Fetch gone BROWSER_UA True, LogRendering gone, NewPage True,
       SetUserAgent BROWSER_UA True, Goto gone True, Content True, ClosePage True,
       LogScraped gone 0,
       Fetch down BROWSER_UA False, ErrorFailed down (Error ''getaddrinfo ENOTFOUND''),
       CloseBrowser True,
       WriteFile (str ''output.csv'') (join [10] (lines ?scraped)) True,
       LogDone (str ''output.csv'')])"
    by simp
  from 1 2 3 4 5 show ?thesis by blast
qed


end
